theory Spec2Isabelle
  imports Complex_Main "HOL-Library.Sublist"
begin

section \<open>Python strings\<close>

text \<open>
  A Python \<^verbatim>\<open>str\<close> is modelled as a \<^typ>\<open>string\<close> whose characters are the code points
  below 256. On that range \<^verbatim>\<open>str.isspace\<close>, the \<^verbatim>\<open>\s\<close> class of \<^verbatim>\<open>re\<close> and the
  characters removed by \<^verbatim>\<open>str.strip()\<close> and \<^verbatim>\<open>str.split()\<close> coincide: code points
  9..13, 28..32, 133 and 160.
\<close>

definition isspace :: "char \<Rightarrow> bool" where
  "isspace c =
     (let n = (of_char c :: nat)
      in (9 \<le> n \<and> n \<le> 13) \<or> (28 \<le> n \<and> n \<le> 32) \<or> n = 133 \<or> n = 160)"

text \<open>\<^verbatim>\<open>s.strip()\<close>\<close>

definition strip :: "string \<Rightarrow> string" where
  "strip s = rev (dropWhile isspace (rev (dropWhile isspace s)))"

text \<open>
  \<^verbatim>\<open>s.lower()\<close> on code points below 256: the ASCII capitals and the Latin-1 capitals
  (192..222 without the multiplication sign 215) move up by 32.
\<close>

definition lower_char :: "char \<Rightarrow> char" where
  "lower_char c =
     (let n = (of_char c :: nat)
      in if (65 \<le> n \<and> n \<le> 90) \<or> (192 \<le> n \<and> n \<le> 222 \<and> n \<noteq> 215)
         then char_of (n + 32) else c)"

definition lower :: "string \<Rightarrow> string" where
  "lower s = map lower_char s"

text \<open>\<^verbatim>\<open>sep.join(xs)\<close>\<close>

fun join :: "string \<Rightarrow> string list \<Rightarrow> string" where
  "join sep [] = []"
| "join sep [x] = x"
| "join sep (x # y # ys) = x @ sep @ join sep (y # ys)"

text \<open>
  \<^verbatim>\<open>s.split()\<close> with no argument: the maximal runs of characters that are not
  whitespace, in order; never an empty piece. The first argument is the run collected
  so far.
\<close>

fun split_from :: "string \<Rightarrow> string \<Rightarrow> string list" where
  "split_from w [] = (if w = [] then [] else [w])"
| "split_from w (c # cs) =
     (if isspace c then (if w = [] then split_from [] cs else w # split_from [] cs)
      else split_from (w @ [c]) cs)"

definition py_split :: "string \<Rightarrow> string list" where
  "py_split s = split_from [] s"

text \<open>
  \<^verbatim>\<open>re.sub(r'\s+', ' ', text)\<close>: every maximal run of whitespace is replaced by one
  space.
\<close>

function re_sub_ws :: "string \<Rightarrow> string" where
  "re_sub_ws [] = []"
| "re_sub_ws (c # cs) =
     (if isspace c then CHR '' '' # re_sub_ws (dropWhile isspace cs)
      else c # re_sub_ws cs)"
  by pat_completeness auto
termination
  by (relation "measure length") (auto simp: length_dropWhile_le le_imp_less_Suc)

text \<open>
  \<^verbatim>\<open>pattern.search(s)\<close> for a pattern that is an alternation of literal words compiled
  with \<^verbatim>\<open>re.I\<close>, such as \<^verbatim>\<open>re.compile('(author|byline)', re.I)\<close>: some alternative
  occurs in \<open>s\<close> as a contiguous piece, letter case ignored. The alternatives are given
  in lower case.
\<close>

fun occurs_in :: "string \<Rightarrow> string \<Rightarrow> bool" where
  "occurs_in w [] = (w = [])"
| "occurs_in w (c # cs) = (prefix w (c # cs) \<or> occurs_in w cs)"

definition re_search_ci :: "string list \<Rightarrow> string \<Rightarrow> bool" where
  "re_search_ci alts s = list_ex (\<lambda>w. occurs_in w (lower s)) alts"

section \<open>The parsed document\<close>

text \<open>
  The tree that \<^verbatim>\<open>BeautifulSoup(html_content, 'html.parser')\<close> builds. An attribute value
  is a string, or a list of tokens for the multi-valued attributes (\<^verbatim>\<open>class\<close>,
  \<^verbatim>\<open>rel\<close>, ...). A node is a tag with its name, attributes and children, a
  \<^verbatim>\<open>NavigableString\<close>, or a string of another kind (comment, doctype, ...), which
  \<^verbatim>\<open>get_text\<close> leaves out. The document object itself is a tag named
  \<^verbatim>\<open>[document]\<close>.
\<close>

datatype attr_value = Str string | Multi "string list"

datatype node =
    Tag string "(string \<times> attr_value) list" "node list"
  | NavigableString string
  | Comment string

datatype py_error =
    TypeError | AttributeError | ValueError | ZeroDivisionError
  | RequestException | OSError | OtherError

fun is_tag :: "node \<Rightarrow> bool" where
  "is_tag (Tag n a cs) = True"
| "is_tag _ = False"

fun tag_name :: "node \<Rightarrow> string" where
  "tag_name (Tag n a cs) = n"
| "tag_name _ = []"

fun tag_attrs :: "node \<Rightarrow> (string \<times> attr_value) list" where
  "tag_attrs (Tag n a cs) = a"
| "tag_attrs _ = []"

text \<open>\<^verbatim>\<open>tag.get(key)\<close>\<close>

definition get_attr :: "node \<Rightarrow> string \<Rightarrow> attr_value option" where
  "get_attr t k = map_of (tag_attrs t) k"

text \<open>\<^verbatim>\<open>tag.descendants\<close>: every node below the tag, in document order.\<close>

fun descendants :: "node \<Rightarrow> node list" where
  "descendants (Tag n a cs) = concat (map (\<lambda>c. c # descendants c) cs)"
| "descendants (NavigableString s) = []"
| "descendants (Comment s) = []"

text \<open>
  What a search compares an attribute value with: a string (equality), a compiled
  case-insensitive alternation (search), a list of strings (any of them) or \<^verbatim>\<open>True\<close>
  (the attribute is present).
\<close>

datatype matcher = MStr string | MRegex "string list" | MList "string list" | MTrue

fun matches_str :: "string \<Rightarrow> matcher \<Rightarrow> bool" where
  "matches_str s (MStr m) = (s = m)"
| "matches_str s (MRegex alts) = re_search_ci alts s"
| "matches_str s (MList ms) = (s \<in> set ms)"
| "matches_str s MTrue = True"

text \<open>
  An absent attribute matches only a falsy filter; a multi-valued attribute matches when
  one of its tokens does, or the tokens joined by spaces do.
\<close>

fun matches :: "attr_value option \<Rightarrow> matcher \<Rightarrow> bool" where
  "matches None (MStr m) = (m = [])"
| "matches None (MRegex alts) = False"
| "matches None (MList ms) = (ms = [])"
| "matches None MTrue = False"
| "matches (Some (Str s)) m = matches_str s m"
| "matches (Some (Multi ts)) m =
     (list_ex (\<lambda>t. matches_str t m) ts \<or> matches_str (join '' '' ts) m)"

definition tag_matches :: "string list \<Rightarrow> (string \<times> matcher) list \<Rightarrow> node \<Rightarrow> bool" where
  "tag_matches names attrs t =
     (is_tag t \<and> tag_name t \<in> set names \<and>
      list_all (\<lambda>(k, m). matches (get_attr t k) m) attrs)"

text \<open>\<^verbatim>\<open>tag.find_all(names, attrs=attrs)\<close> and \<^verbatim>\<open>tag.find(names, attrs=attrs)\<close>\<close>

definition find_all :: "string list \<Rightarrow> (string \<times> matcher) list \<Rightarrow> node \<Rightarrow> node list" where
  "find_all names attrs doc = filter (tag_matches names attrs) (descendants doc)"

definition find_tag :: "string list \<Rightarrow> (string \<times> matcher) list \<Rightarrow> node \<Rightarrow> node option" where
  "find_tag names attrs doc =
     (case find_all names attrs doc of [] \<Rightarrow> None | t # ts \<Rightarrow> Some t)"

text \<open>
  \<^verbatim>\<open>tag.get_text(separator, strip)\<close>: the \<^verbatim>\<open>NavigableString\<close>s below the tag in
  document order; with \<^verbatim>\<open>strip=True\<close> each is stripped and the empty ones are dropped;
  joined by the separator. \<^verbatim>\<open>tag.text\<close> is \<^verbatim>\<open>get_text('', False)\<close>.
\<close>

fun nav_string :: "node \<Rightarrow> string option" where
  "nav_string (NavigableString s) = Some s"
| "nav_string _ = None"

definition all_strings :: "bool \<Rightarrow> node \<Rightarrow> string list" where
  "all_strings strp t =
     (let ss = List.map_filter nav_string (descendants t)
      in if strp then filter (\<lambda>s. s \<noteq> []) (map strip ss) else ss)"

definition get_text :: "string \<Rightarrow> bool \<Rightarrow> node \<Rightarrow> string" where
  "get_text sep strp t = join sep (all_strings strp t)"

text \<open>
  The loop \<^verbatim>\<open>for element in soup(names): element.decompose()\<close>: every tag below the
  document whose name is listed is unlinked from its parent, with all that it contains (a
  listed tag inside another listed tag goes with the outer one).
\<close>

fun decompose_all :: "string list \<Rightarrow> node \<Rightarrow> node" where
  "decompose_all names (Tag n a cs) =
     Tag n a (map (decompose_all names)
               (filter (\<lambda>c. \<not> (is_tag c \<and> tag_name c \<in> set names)) cs))"
| "decompose_all names (NavigableString s) = NavigableString s"
| "decompose_all names (Comment s) = Comment s"

section \<open>parser/parsers.py\<close>

text \<open>
  \<^verbatim>\<open>BaseParser.__init__\<close>: \<open>soup\<close> is \<^verbatim>\<open>None\<close> when \<^verbatim>\<open>html_content\<close> is empty, and the
  parsed document otherwise.
\<close>

record parser =
  html :: string
  url :: string
  soup :: "node option"

definition get_title :: "parser \<Rightarrow> string option" where
  "get_title p =
     (case soup p of None \<Rightarrow> None
      | Some d \<Rightarrow>
          (case find_tag [''title''] [] d of None \<Rightarrow> None
           | Some title_tag \<Rightarrow> Some (strip (get_text [] False title_tag))))"

text \<open>
  \<^verbatim>\<open>meta_desc.get('content', '').strip()\<close>: a list value has no \<^verbatim>\<open>strip\<close>.
\<close>

definition get_meta_description :: "parser \<Rightarrow> py_error + string option" where
  "get_meta_description p =
     (case soup p of None \<Rightarrow> Inr None
      | Some d \<Rightarrow>
          (case find_tag [''meta''] [(''name'', MStr ''description'')] d of None \<Rightarrow> Inr None
           | Some meta_desc \<Rightarrow>
               (case get_attr meta_desc ''content'' of
                  None \<Rightarrow> Inr (Some (strip []))
                | Some (Str s) \<Rightarrow> Inr (Some (strip s))
                | Some (Multi ts) \<Rightarrow> Inl AttributeError)))"

text \<open>
  \<^verbatim>\<open>max(xs, key=k)\<close> on a list that is not empty: the first element whose key is
  greatest (the running best is replaced only by a strictly greater key).
\<close>

fun max_from :: "('a \<Rightarrow> nat) \<Rightarrow> 'a \<Rightarrow> 'a list \<Rightarrow> 'a" where
  "max_from k b [] = b"
| "max_from k b (x # xs) = max_from k (if k b < k x then x else b) xs"

definition main_containers :: "node \<Rightarrow> node list" where
  "main_containers d =
     find_all [''article'', ''main'', ''div'']
       [(''class'', MRegex [''content'', ''article'', ''post'', ''main''])] d"

definition get_main_content :: "parser \<Rightarrow> string option" where
  "get_main_content p =
     (case soup p of None \<Rightarrow> None
      | Some d \<Rightarrow>
          (case main_containers d of
             c # cs \<Rightarrow>
               Some (get_text '' '' True
                      (max_from (\<lambda>x. length (get_text [] True x)) c cs))
           | [] \<Rightarrow>
               (case find_tag [''body''] [] d of None \<Rightarrow> None
                | Some body \<Rightarrow> Some (get_text '' '' True body))))"

definition get_all_links :: "parser \<Rightarrow> attr_value list" where
  "get_all_links p =
     (case soup p of None \<Rightarrow> []
      | Some d \<Rightarrow> List.map_filter (\<lambda>a. get_attr a ''href'') (find_all [''a''] [(''href'', MTrue)] d))"

definition get_images :: "parser \<Rightarrow> attr_value list" where
  "get_images p =
     (case soup p of None \<Rightarrow> []
      | Some d \<Rightarrow> List.map_filter (\<lambda>img. get_attr img ''src'') (find_all [''img''] [(''src'', MTrue)] d))"

definition removed_tags :: "string list" where
  "removed_tags = [''script'', ''style'', ''head'', ''header'', ''footer'', ''nav'']"

text \<open>
  \<^verbatim>\<open>get_clean_text\<close> calls \<^verbatim>\<open>decompose\<close> on the elements of \<^verbatim>\<open>self.soup\<close> itself, so
  it returns the text together with the parser it leaves behind.
\<close>

definition get_clean_text :: "parser \<Rightarrow> string \<times> parser" where
  "get_clean_text p =
     (case soup p of None \<Rightarrow> ([], p)
      | Some d \<Rightarrow>
          (let d' = decompose_all removed_tags d;
               text = get_text '' '' True d';
               text = re_sub_ws text
           in (strip text, p\<lparr>soup := Some d'\<rparr>)))"

text \<open>
  \<^verbatim>\<open>ArticleParser.get_author\<close> calls \<^verbatim>\<open>self.soup.find(['a', 'span', 'div', 'p'], **pattern)\<close>
  for each dictionary of \<^verbatim>\<open>author_patterns\<close>. The signature is
  \<^verbatim>\<open>find(name=None, attrs={}, recursive=True, string=None, **kwargs)\<close>: the list of tag
  names is bound to \<^verbatim>\<open>name\<close> by position, a key \<^verbatim>\<open>attrs\<close> of the dictionary is bound to
  \<^verbatim>\<open>attrs\<close>, every other key lands in \<^verbatim>\<open>kwargs\<close> and is a filter on the attribute
  of that name, and a key \<^verbatim>\<open>name\<close> gives the parameter \<^verbatim>\<open>name\<close> a second value, for
  which Python raises \<^verbatim>\<open>TypeError\<close> before \<^verbatim>\<open>find\<close> runs.
\<close>

record find_kwargs =
  kw_name :: "matcher option"
  kw_attrs :: "(string \<times> matcher) list"
  kw_extra :: "(string \<times> matcher) list"

definition find_kw :: "string list \<Rightarrow> find_kwargs \<Rightarrow> node \<Rightarrow> py_error + node option" where
  "find_kw names kw doc =
     (case kw_name kw of
        Some m \<Rightarrow> Inl TypeError
      | None \<Rightarrow> Inr (find_tag names (kw_attrs kw @ kw_extra kw) doc))"

definition author_patterns :: "find_kwargs list" where
  "author_patterns =
     [\<lparr>kw_name = None, kw_attrs = [(''class'', MRegex [''author'', ''byline''])], kw_extra = []\<rparr>,
      \<lparr>kw_name = None, kw_attrs = [(''rel'', MStr ''author'')], kw_extra = []\<rparr>,
      \<lparr>kw_name = None, kw_attrs = [], kw_extra = [(''itemprop'', MStr ''author'')]\<rparr>,
      \<lparr>kw_name = Some (MRegex [''author'']), kw_attrs = [], kw_extra = []\<rparr>]"

fun author_loop :: "find_kwargs list \<Rightarrow> node \<Rightarrow> py_error + string option" where
  "author_loop [] d = Inr None"
| "author_loop (pattern # patterns) d =
     (case find_kw [''a'', ''span'', ''div'', ''p''] pattern d of
        Inl e \<Rightarrow> Inl e
      | Inr (Some author_tag) \<Rightarrow> Inr (Some (get_text [] True author_tag))
      | Inr None \<Rightarrow> author_loop patterns d)"

definition get_author :: "parser \<Rightarrow> py_error + string option" where
  "get_author p =
     (case soup p of None \<Rightarrow> Inr None
      | Some d \<Rightarrow> author_loop author_patterns d)"

text \<open>
  \<^verbatim>\<open>get_publish_date\<close> returns an attribute value as it is stored (\<^verbatim>\<open>meta_date.get('content')\<close>,
  which is \<^verbatim>\<open>None\<close> when the attribute is missing, and \<^verbatim>\<open>time_tag['datetime']\<close>) or
  the stripped text of the date element. \<open>publish_date_by_class\<close> is the last of its three
  steps, reached when there is no \<^verbatim>\<open>time\<close> element or the first one has no \<^verbatim>\<open>datetime\<close>.
\<close>

definition publish_date_by_class :: "node \<Rightarrow> attr_value option" where
  "publish_date_by_class d =
     (case find_tag [''span'', ''div'', ''p'']
             [(''class'', MRegex [''date'', ''time'', ''publish''])] d of
        Some date_tag \<Rightarrow> Some (Str (get_text [] True date_tag))
      | None \<Rightarrow> None)"

definition get_publish_date :: "parser \<Rightarrow> attr_value option" where
  "get_publish_date p =
     (case soup p of None \<Rightarrow> None
      | Some d \<Rightarrow>
          (case find_tag [''meta'']
                  [(''property'', MList [''article:published_time'', ''og:published_time''])] d of
             Some meta_date \<Rightarrow> get_attr meta_date ''content''
           | None \<Rightarrow>
               (case find_tag [''time''] [] d of
                  Some time_tag \<Rightarrow>
                    (case get_attr time_tag ''datetime'' of
                       Some v \<Rightarrow> Some v
                     | None \<Rightarrow> publish_date_by_class d)
                | None \<Rightarrow> publish_date_by_class d)))"

section \<open>analyzer/text_analysis.py\<close>

text \<open>
  The NLTK functions and data the analyzer calls are parameters: \<open>word_tokenize\<close>,
  \<open>sent_tokenize\<close> and the stopword lists (\<^verbatim>\<open>stopwords.words(language)\<close>, \<^verbatim>\<open>None\<close>
  for a language that is not among \<^verbatim>\<open>stopwords._fileids\<close>).
\<close>

record nltk =
  word_tokenize :: "string \<Rightarrow> string list"
  sent_tokenize :: "string \<Rightarrow> string list"
  stopwords_words :: "string \<Rightarrow> string list option"

record text_analyzer =
  atext :: string
  language :: string
  stop_words :: "string set"

text \<open>\<^verbatim>\<open>TextAnalyzer.__init__\<close>\<close>

definition TextAnalyzer :: "nltk \<Rightarrow> string \<Rightarrow> string \<Rightarrow> text_analyzer" where
  "TextAnalyzer N txt lang =
     \<lparr>atext = txt, language = lang,
      stop_words = (case stopwords_words N lang of Some ws \<Rightarrow> set ws | None \<Rightarrow> {})\<rparr>"

text \<open>
  \<^verbatim>\<open>string.punctuation\<close> is the 32 ASCII characters with codes 33..47, 58..64, 91..96
  and 123..126; \<^verbatim>\<open>text.translate(str.maketrans('', '', string.punctuation))\<close> deletes
  them.
\<close>

definition is_punctuation :: "char \<Rightarrow> bool" where
  "is_punctuation c =
     (let n = (of_char c :: nat)
      in (33 \<le> n \<and> n \<le> 47) \<or> (58 \<le> n \<and> n \<le> 64) \<or> (91 \<le> n \<and> n \<le> 96) \<or>
         (123 \<le> n \<and> n \<le> 126))"

definition preprocess :: "nltk \<Rightarrow> text_analyzer \<Rightarrow> bool \<Rightarrow> bool \<Rightarrow> bool \<Rightarrow> string list" where
  "preprocess N A lowercase remove_punctuation remove_stopwords =
     (let t = atext A;
          t = (if lowercase then lower t else t);
          t = (if remove_punctuation then filter (\<lambda>c. \<not> is_punctuation c) t else t);
          tokens = word_tokenize N t
      in if remove_stopwords then filter (\<lambda>token. token \<notin> stop_words A) tokens else tokens)"

text \<open>
  \<^verbatim>\<open>Counter(tokens)\<close>: a dictionary in insertion order, so the keys stand in the order of
  their first occurrence.
\<close>

fun counter_add :: "('a \<times> nat) list \<Rightarrow> 'a \<Rightarrow> ('a \<times> nat) list" where
  "counter_add [] w = [(w, 1)]"
| "counter_add ((k, c) # kcs) w =
     (if k = w then (k, c + 1) # kcs else (k, c) # counter_add kcs w)"

definition Counter :: "'a list \<Rightarrow> ('a \<times> nat) list" where
  "Counter ws = foldl counter_add [] ws"

text \<open>
  \<^verbatim>\<open>Counter.most_common(n)\<close> is \<^verbatim>\<open>heapq.nlargest(n, self.items(), key=itemgetter(1))\<close>,
  which is \<^verbatim>\<open>sorted(self.items(), key=itemgetter(1), reverse=True)[:n]\<close>: a stable sort
  by falling count, cut after \<open>n\<close> entries (none for a negative \<open>n\<close>).
\<close>

definition most_common :: "int \<Rightarrow> ('a \<times> nat) list \<Rightarrow> ('a \<times> nat) list" where
  "most_common n freq = take (nat n) (sort_key (\<lambda>(w, c). - int c) freq)"

datatype freq_result = MostCommon "(string \<times> nat) list" | FreqDist "(string \<times> nat) list"

text \<open>\<^verbatim>\<open>if top_n:\<close> is false for \<^verbatim>\<open>None\<close> and for 0.\<close>

definition get_word_frequency :: "nltk \<Rightarrow> text_analyzer \<Rightarrow> int option \<Rightarrow> int \<Rightarrow> freq_result" where
  "get_word_frequency N A top_n min_word_length =
     (let tokens = preprocess N A True True True;
          tokens = filter (\<lambda>token. int (length token) \<ge> min_word_length) tokens;
          freq_dist = Counter tokens
      in case top_n of
           Some n \<Rightarrow> if n \<noteq> 0 then MostCommon (most_common n freq_dist) else FreqDist freq_dist
         | None \<Rightarrow> FreqDist freq_dist)"

definition get_sentences :: "nltk \<Rightarrow> text_analyzer \<Rightarrow> string list" where
  "get_sentences N A = sent_tokenize N (atext A)"

text \<open>
  The optional backends. Each is \<^verbatim>\<open>None\<close> when its \<^verbatim>\<open>import\<close> raises
  \<^verbatim>\<open>ImportError\<close>. TextBlob gives the polarity and the subjectivity of a text; textstat
  gives five scores; spaCy's \<^verbatim>\<open>load('en_core_web_sm')\<close> gives the pipeline or raises
  \<^verbatim>\<open>OSError\<close>, once before and once after the model is downloaded, and the pipeline
  gives the entities of a text in order, each with its label and its text. Floats are
  modelled as reals.
\<close>

record sentiment =
  polarity :: real
  subjectivity :: real

record spacy_module =
  load_model :: "(string \<Rightarrow> (string \<times> string) list) option"
  load_model_after_download :: "(string \<Rightarrow> (string \<times> string) list) option"

record textstat_module =
  flesch_reading_ease :: "string \<Rightarrow> real"
  flesch_kincaid_grade :: "string \<Rightarrow> real"
  smog_index :: "string \<Rightarrow> real"
  coleman_liau_index :: "string \<Rightarrow> real"
  automated_readability_index :: "string \<Rightarrow> real"

record backends =
  textblob :: "(string \<Rightarrow> sentiment) option"
  spacy :: "spacy_module option"
  textstat :: "textstat_module option"

definition get_sentiment :: "backends \<Rightarrow> text_analyzer \<Rightarrow> sentiment" where
  "get_sentiment B A =
     (case textblob B of
        Some blob \<Rightarrow> \<lparr>polarity = polarity (blob (atext A)), subjectivity = subjectivity (blob (atext A))\<rparr>
      | None \<Rightarrow> \<lparr>polarity = 0, subjectivity = 0\<rparr>)"

text \<open>
  The loop body \<^verbatim>\<open>if entity_type not in entities: entities[entity_type] = []\<close>,
  \<^verbatim>\<open>entities[entity_type].append(ent.text)\<close> on a dictionary in insertion order.
\<close>

fun entities_append :: "(string \<times> string list) list \<Rightarrow> string \<times> string \<Rightarrow> (string \<times> string list) list" where
  "entities_append [] (entity_type, t) = [(entity_type, [t])]"
| "entities_append ((k, ts) # rest) (entity_type, t) =
     (if k = entity_type then (k, ts @ [t]) # rest
      else (k, ts) # entities_append rest (entity_type, t))"

definition extract_entities :: "backends \<Rightarrow> text_analyzer \<Rightarrow> py_error + (string \<times> string list) list" where
  "extract_entities B A =
     (case spacy B of
        None \<Rightarrow> Inr []
      | Some sp \<Rightarrow>
          (case load_model sp of
             Some nlp \<Rightarrow> Inr (foldl entities_append [] (nlp (atext A)))
           | None \<Rightarrow>
               (case load_model_after_download sp of
                  Some nlp \<Rightarrow> Inr (foldl entities_append [] (nlp (atext A)))
                | None \<Rightarrow> Inl OSError)))"

definition get_readability_scores :: "backends \<Rightarrow> text_analyzer \<Rightarrow> (string \<times> real) list" where
  "get_readability_scores B A =
     (case textstat B of
        Some ts \<Rightarrow>
          [(''flesch_reading_ease'', flesch_reading_ease ts (atext A)),
           (''flesch_kincaid_grade'', flesch_kincaid_grade ts (atext A)),
           (''smog_index'', smog_index ts (atext A)),
           (''coleman_liau_index'', coleman_liau_index ts (atext A)),
           (''automated_readability_index'', automated_readability_index ts (atext A))]
      | None \<Rightarrow> [])"

section \<open>main.py\<close>

text \<open>\<^verbatim>\<open>a / b\<close> on integers\<close>

definition truediv :: "int \<Rightarrow> int \<Rightarrow> py_error + real" where
  "truediv a b = (if b = 0 then Inl ZeroDivisionError else Inr (real_of_int a / real_of_int b))"

text \<open>
  The entry \<^verbatim>\<open>'average_sentence_length'\<close> of \<^verbatim>\<open>analyze_content\<close>:
  \<^verbatim>\<open>sum(len(s.split()) for s in sentences) / len(sentences) if sentences else 0\<close>
\<close>

definition average_sentence_length :: "string list \<Rightarrow> py_error + real" where
  "average_sentence_length sentences =
     (if sentences \<noteq> []
      then truediv (sum_list (map (\<lambda>s. int (length (py_split s))) sentences))
             (int (length sentences))
      else Inr 0)"

record analysis_results =
  res_word_frequency :: "(string \<times> nat) list"
  res_sentence_count :: nat
  res_average_sentence_length :: real
  res_sentiment :: sentiment
  res_entities :: "(string \<times> string list) list"
  res_readability :: "(string \<times> real) list"

definition analyze_content :: "nltk \<Rightarrow> backends \<Rightarrow> string \<Rightarrow> py_error + analysis_results option" where
  "analyze_content N B content_text =
     (if content_text = [] then Inr None
      else
        let analyzer = TextAnalyzer N content_text ''english'';
            word_freq = (case get_word_frequency N analyzer (Some 50) 3 of
                           MostCommon l \<Rightarrow> l | FreqDist l \<Rightarrow> l);
            sentences = get_sentences N analyzer;
            sentiment = get_sentiment B analyzer
        in case extract_entities B analyzer of
             Inl e \<Rightarrow> Inl e
           | Inr entities \<Rightarrow>
               (case average_sentence_length sentences of
                  Inl e \<Rightarrow> Inl e
                | Inr avg \<Rightarrow>
                    Inr (Some \<lparr>res_word_frequency = word_freq,
                               res_sentence_count = length sentences,
                               res_average_sentence_length = avg,
                               res_sentiment = sentiment,
                               res_entities = entities,
                               res_readability = get_readability_scores B analyzer\<rparr>)))"

section \<open>Python floats\<close>

text \<open>
  A Python float is an IEEE 754 binary64 number; it is modelled by its value, a real.
  \<open>to_double\<close> rounds a real to the nearest number with a 53-bit significand, a tie
  going to the even significand, as the float operations do (overflow and subnormal
  numbers, which the delays of \<open>fetch_url\<close> are far from, are not modelled). \<open>ulp x\<close> is
  the distance between neighbouring floats around \<open>x\<close>. \<^verbatim>\<open>a + b\<close> and \<^verbatim>\<open>a * b\<close> on floats
  are the exact sum and product, rounded.
\<close>

definition ulp :: "real \<Rightarrow> real" where
  "ulp x = 2 powi (\<lfloor>log 2 x\<rfloor> - 52)"





section \<open>config.py and scraper/utils.py\<close>


definition RETRY_COUNT :: int where
  "RETRY_COUNT = 3"



text \<open>
  What \<^verbatim>\<open>fetch_url\<close> reads from outside: the values that \<^verbatim>\<open>random.random()\<close> and
  \<^verbatim>\<open>random.choice\<close> give at their successive calls, what the successive calls of
  \<^verbatim>\<open>session.get\<close> do, and the proxy settings of the process environment. What it does
  to the outside: the sleeps and the requests, kept in order in \<open>events\<close>. A duration
  is the value of the Python float. Log lines are left out.
\<close>

record session =
  headers :: "(string \<times> string) list"
  proxies :: "(string \<times> string) list"

record response =
  status_code :: nat
  body_text :: string

datatype get_outcome = Returns response | Raises py_error

datatype event = Sleep real | Get string

record env =
  random_random :: "nat \<Rightarrow> real"
  random_choice :: "nat \<Rightarrow> nat"
  session_get :: "nat \<Rightarrow> session \<Rightarrow> string \<Rightarrow> nat \<Rightarrow> get_outcome"
  USE_PROXY :: bool
  PROXY_URL :: string

record world =
  draws :: nat
  requests :: nat
  events :: "event list"

definition user_agents :: "string list" where
  "user_agents =
     [''Mozilla/5.0 (Windows NT 10.0; Win64; x64) AppleWebKit/537.36 (KHTML, like Gecko) Chrome/91.0.4472.124 Safari/537.36'',
      ''Mozilla/5.0 (Macintosh; Intel Mac OS X 10_15_7) AppleWebKit/605.1.15 (KHTML, like Gecko) Version/14.1.1 Safari/605.1.15'',
      ''Mozilla/5.0 (Windows NT 10.0; Win64; x64; rv:89.0) Gecko/20100101 Firefox/89.0'',
      ''Mozilla/5.0 (X11; Linux x86_64) AppleWebKit/537.36 (KHTML, like Gecko) Chrome/92.0.4515.107 Safari/537.36'']"

definition get_random_user_agent :: "env \<Rightarrow> world \<Rightarrow> string \<times> world" where
  "get_random_user_agent E w =
     (user_agents ! (random_choice E (draws w) mod length user_agents),
      w\<lparr>draws := draws w + 1\<rparr>)"

definition get_session :: "env \<Rightarrow> world \<Rightarrow> session \<times> world" where
  "get_session E w =
     (let (ua, w) = get_random_user_agent E w
      in (\<lparr>headers =
             [(''User-Agent'', ua),
              (''Accept'', ''text/html,application/xhtml+xml,application/xml;q=0.9,*/*;q=0.8''),
              (''Accept-Language'', ''en-US,en;q=0.5''),
              (''DNT'', ''1'')],
           proxies =
             (if USE_PROXY E \<and> PROXY_URL E \<noteq> []
              then [(''http'', PROXY_URL E), (''https'', PROXY_URL E)] else [])\<rparr>,
          w))"






section \<open>Calling the accessors in sequence\<close>

text \<open>
  The eight accessors of \<^verbatim>\<open>ArticleParser\<close> under one interface: a call returns what the
  method returns or raises, and the parser it leaves behind. Only \<^verbatim>\<open>get_clean_text\<close>
  assigns to the document. \<open>run\<close> calls a list of accessors one after the other on the
  same parser object (an exception of one call does not change the object).
\<close>

datatype accessor =
    GetTitle | GetMetaDescription | GetMainContent | GetAllLinks | GetImages
  | GetCleanText | GetAuthor | GetPublishDate

datatype pyval = PNone | PStr string | PAttr attr_value | PList "attr_value list"

fun opt_str :: "string option \<Rightarrow> pyval" where
  "opt_str None = PNone"
| "opt_str (Some s) = PStr s"

fun opt_attr :: "attr_value option \<Rightarrow> pyval" where
  "opt_attr None = PNone"
| "opt_attr (Some v) = PAttr v"

fun call :: "accessor \<Rightarrow> parser \<Rightarrow> (py_error + pyval) \<times> parser" where
  "call GetTitle p = (Inr (opt_str (get_title p)), p)"
| "call GetMetaDescription p = (map_sum id opt_str (get_meta_description p), p)"
| "call GetMainContent p = (Inr (opt_str (get_main_content p)), p)"
| "call GetAllLinks p = (Inr (PList (get_all_links p)), p)"
| "call GetImages p = (Inr (PList (get_images p)), p)"
| "call GetCleanText p = (case get_clean_text p of (t, p') \<Rightarrow> (Inr (PStr t), p'))"
| "call GetAuthor p = (map_sum id opt_str (get_author p), p)"
| "call GetPublishDate p = (Inr (opt_attr (get_publish_date p)), p)"

fun run :: "accessor list \<Rightarrow> parser \<Rightarrow> (py_error + pyval) list \<times> parser" where
  "run [] p = ([], p)"
| "run (a # as) p =
     (case call a p of (r, p') \<Rightarrow> (case run as p' of (rs, p'') \<Rightarrow> (r # rs, p'')))"

section \<open>Notions used in the statements\<close>








text \<open>
  The world after the sleep and the request of one attempt, and what \<open>fetch_url\<close>
  returns when the attempt is its last.
\<close>

definition after_attempt :: "real \<Rightarrow> string \<Rightarrow> world \<Rightarrow> world" where
  "after_attempt d u w =
     w\<lparr>draws := draws w + 1, requests := requests w + 1, events := events w @ [Sleep d, Get u]\<rparr>"



text \<open>
  Every \<^verbatim>\<open>NavigableString\<close> below a node, with the names of the tags it lies in (the
  innermost first, above the names given).
\<close>

fun located_strings :: "string list \<Rightarrow> node \<Rightarrow> (string list \<times> string) list" where
  "located_strings anc (Tag n a cs) = concat (map (located_strings (n # anc)) cs)"
| "located_strings anc (NavigableString s) = [(anc, s)]"
| "located_strings anc (Comment s) = []"

text \<open>
  The strings below the children of the document that lie in no \<^verbatim>\<open>script\<close>,
  \<^verbatim>\<open>style\<close>, \<^verbatim>\<open>head\<close>, \<^verbatim>\<open>header\<close>, \<^verbatim>\<open>footer\<close> or \<^verbatim>\<open>nav\<close> element.
\<close>

definition outside_strings :: "node list \<Rightarrow> string list" where
  "outside_strings cs =
     map snd (filter (\<lambda>(anc, s). set anc \<inter> set removed_tags = {})
       (concat (map (located_strings []) cs)))"

text \<open>Two whitespace characters stand next to each other.\<close>

fun adjacent_spaces :: "string \<Rightarrow> bool" where
  "adjacent_spaces (a # b # cs) = ((isspace a \<and> isspace b) \<or> adjacent_spaces (b # cs))"
| "adjacent_spaces _ = False"

text \<open>The strings of a node, itself included; a child that the loop removes; the strings
  of a node that lie in no removed element; \<^verbatim>\<open>s.rstrip()\<close>; tokens that are not empty
  and hold no whitespace.\<close>

definition strs :: "node \<Rightarrow> string list" where
  "strs c = List.map_filter nav_string (c # descendants c)"

definition removed :: "node \<Rightarrow> bool" where
  "removed c = (is_tag c \<and> tag_name c \<in> set removed_tags)"

definition vis :: "string list \<Rightarrow> node \<Rightarrow> string list" where
  "vis anc c = map snd (filter (\<lambda>(a, s). set a \<inter> set removed_tags = {}) (located_strings anc c))"

definition rstrip :: "string \<Rightarrow> string" where
  "rstrip s = rev (dropWhile isspace (rev s))"

definition tokens_ok :: "string list \<Rightarrow> bool" where
  "tokens_ok ts = (\<forall>t\<in>set ts. t \<noteq> [] \<and> (\<forall>c\<in>set t. \<not> isspace c))"

text \<open>
  The elements of a list, each once, in the order of their first occurrence.
\<close>

fun first_occurrences :: "'a list \<Rightarrow> 'a list" where
  "first_occurrences [] = []"
| "first_occurrences (x # xs) = x # filter (\<lambda>y. y \<noteq> x) (first_occurrences xs)"

text \<open>
  The tokens that \<^verbatim>\<open>get_word_frequency\<close> counts: the text in lower case, without
  punctuation, tokenized, without the stopwords, without the tokens shorter than
  \<open>min_word_length\<close>.
\<close>

definition kept_tokens :: "nltk \<Rightarrow> text_analyzer \<Rightarrow> int \<Rightarrow> string list" where
  "kept_tokens N A min_word_length =
     filter (\<lambda>t. min_word_length \<le> int (length t))
       (filter (\<lambda>t. t \<notin> stop_words A)
         (word_tokenize N (filter (\<lambda>c. \<not> is_punctuation c) (lower (atext A)))))"

section \<open>Concrete inputs\<close>

definition cat_text :: string where
  "cat_text = ''the cat sat on the mat the cat ran''"

definition titled :: parser where
  "titled =
     \<lparr>html = ''<html><head><title>News</title></head><body><p>Hello</p></body></html>'', url = [],
      soup = Some (Tag ''[document]'' []
        [Tag ''html'' []
          [Tag ''head'' [] [Tag ''title'' [] [NavigableString ''News'']],
           Tag ''body'' [] [Tag ''p'' [] [NavigableString ''Hello'']]]])\<rparr>"

definition script_page_children :: "node list" where
  "script_page_children =
     [Tag ''html'' []
        [Tag ''head'' [] [Tag ''title'' [] [NavigableString ''News'']],
         Tag ''body'' []
           [Tag ''script'' [] [NavigableString ''var secret = 1;''],
            Tag ''nav'' [] [Tag ''a'' [(''href'', Str ''/'')] [NavigableString ''Home'']],
            Tag ''p'' [] [NavigableString [CHR '' '', CHR ''H'', CHR ''i'', CHR 0x0A, CHR '' '',
               CHR ''y'', CHR ''o'', CHR ''u'', CHR '' '']],
            Tag ''div'' [] [NavigableString ''bye'',
              Tag ''footer'' [] [NavigableString ''imprint'']]]]]"

definition script_page :: parser where
  "script_page =
     \<lparr>html = ''<html>...</html>'', url = [],
      soup = Some (Tag ''[document]'' [] script_page_children)\<rparr>"

definition simple_nltk :: nltk where
  "simple_nltk =
     \<lparr>word_tokenize = py_split, sent_tokenize = (\<lambda>s. [s]),
      stopwords_words = (\<lambda>l. if l = ''english'' then Some [''the'', ''on''] else None)\<rparr>"

definition no_backends :: backends where
  "no_backends = \<lparr>textblob = None, spacy = None, textstat = None\<rparr>"

definition meta_only :: parser where
  "meta_only =
     \<lparr>html = ''<html><head><meta name=description></head></html>'', url = [],
      soup = Some (Tag ''[document]'' []
               [Tag ''html'' []
                 [Tag ''head'' [] [Tag ''meta'' [(''name'', Str ''description'')] []]]])\<rparr>"

definition body_only :: parser where
  "body_only =
     \<lparr>html = ''<body><p>Hello</p></body>'', url = [],
      soup = Some (Tag ''[document]'' []
               [Tag ''body'' [] [Tag ''p'' [] [NavigableString ''Hello'']]])\<rparr>"






text \<open>
  spaCy can be imported, but its model cannot be loaded, neither before nor after the
  download.
\<close>

definition no_model_backends :: backends where
  "no_model_backends =
     \<lparr>textblob = None,
      spacy = Some \<lparr>load_model = None, load_model_after_download = None\<rparr>,
      textstat = None\<rparr>"




text \<open>
  Two \<^verbatim>\<open>meta\<close> elements named \<^verbatim>\<open>description\<close>: the first has a \<^verbatim>\<open>content\<close> attribute, the
  second has none.
\<close>

definition meta_with_content :: node where
  "meta_with_content = Tag ''meta'' [(''name'', Str ''description''), (''content'', Str ''x'')] []"

definition meta_without_content :: node where
  "meta_without_content = Tag ''meta'' [(''name'', Str ''description'')] []"

definition two_metas_doc :: node where
  "two_metas_doc =
     Tag ''[document]'' []
       [Tag ''html'' [] [Tag ''head'' [] [meta_with_content, meta_without_content]]]"

definition two_metas :: parser where
  "two_metas = \<lparr>html = ''<html>...</html>'', url = [], soup = Some two_metas_doc\<rparr>"



section \<open>Properties of the analysis\<close>

lemma split_from_tokens:
  "(\<forall>c\<in>set w. \<not> isspace c) \<Longrightarrow> t \<in> set (split_from w s) \<Longrightarrow>
   t \<noteq> [] \<and> (\<forall>c\<in>set t. \<not> isspace c)"
proof (induction w s rule: split_from.induct)
  case (1 w)
  then show ?case by (auto split: if_splits)
next
  case (2 w c cs)
  show ?case
  proof (cases "isspace c")
    case True
    note sp = this
    show ?thesis
    proof (cases "w = []")
      case True
      have "t \<in> set (split_from [] cs)" using "2.prems"(2) sp True by simp
      then show ?thesis using "2.IH"(1)[OF sp True] by simp
    next
      case False
      have "t = w \<or> t \<in> set (split_from [] cs)" using "2.prems"(2) sp False by simp
      then show ?thesis using "2.IH"(2)[OF sp False] "2.prems"(1) False by auto
    qed
  next
    case False
    have "t \<in> set (split_from (w @ [c]) cs)" using "2.prems"(2) False by simp
    moreover have "\<forall>x\<in>set (w @ [c]). \<not> isspace x" using "2.prems"(1) False by simp
    ultimately show ?thesis using "2.IH"(3)[OF False] by blast
  qed
qed

text \<open>The pieces of \<^verbatim>\<open>s.split()\<close> are the whitespace tokens: none is empty, none holds whitespace.\<close>

lemma py_split_tokens: "t \<in> set (py_split s) \<Longrightarrow> t \<noteq> [] \<and> (\<forall>c\<in>set t. \<not> isspace c)"
  unfolding py_split_def using split_from_tokens [of "[]" t s] by simp

lemma average_sentence_length_returns:
  "\<exists>m. average_sentence_length sentences = Inr m"
  by (simp add: average_sentence_length_def truediv_def)

text \<open>
  C9. The average sentence length is 0 for an empty list of sentences; for a list that
  is not empty it is the sum of the numbers of whitespace tokens of the sentences divided
  by the number of sentences; and the division never raises \<^verbatim>\<open>ZeroDivisionError\<close> (nor
  anything else).
\<close>

theorem average_sentence_length_mean:
  "average_sentence_length [] = Inr 0 \<and>
   (sentences \<noteq> [] \<longrightarrow>
      average_sentence_length sentences =
        Inr (real (\<Sum>s\<leftarrow>sentences. length (py_split s)) / real (length sentences))) \<and>
   (\<forall>e. average_sentence_length sentences \<noteq> Inl e)"
proof -
  have conv: "real_of_int (\<Sum>s\<leftarrow>sentences. int (length (py_split s))) =
      real (\<Sum>s\<leftarrow>sentences. length (py_split s))"
    by (induction sentences) simp_all
  have a: "average_sentence_length [] = Inr 0"
    by (simp add: average_sentence_length_def)
  have b: "sentences \<noteq> [] \<longrightarrow>
      average_sentence_length sentences =
        Inr (real (\<Sum>s\<leftarrow>sentences. length (py_split s)) / real (length sentences))"
    by (simp add: average_sentence_length_def truediv_def conv)
  have c: "\<forall>e. average_sentence_length sentences \<noteq> Inl e"
    by (simp add: average_sentence_length_def truediv_def)
  from a b c show ?thesis by blast
qed

theorem average_sentence_length_mean_witness:
  "average_sentence_length [] = Inr 0 \<and>
   average_sentence_length [''the cat sat'', ''it  ran''] = Inr (5 / 2)"
  using average_sentence_length_mean [of "[''the cat sat'', ''it  ran'']"]
  by (simp add: py_split_def isspace_def)

text \<open>
  C8, as the code has it. When TextBlob cannot be imported the sentiment is polarity 0 and
  subjectivity 0; when textstat cannot be imported the readability scores are the empty
  dictionary; when spaCy cannot be imported the entities are the empty dictionary; and
  with all three imports failing \<^verbatim>\<open>analyze_content\<close> still returns its results for a text
  that is not empty. When spaCy can be imported, \<^verbatim>\<open>extract_entities\<close> never falls back to
  the empty dictionary: it groups the entities of the pipeline that \<^verbatim>\<open>spacy.load\<close> gives,
  at once or after the download of the model, and when the model cannot be loaded after
  the download either, the \<^verbatim>\<open>OSError\<close> of the second \<^verbatim>\<open>spacy.load\<close> leaves
  \<^verbatim>\<open>extract_entities\<close> and \<^verbatim>\<open>analyze_content\<close>.
\<close>

theorem backends_unavailable:
  "(textblob B = None \<longrightarrow> get_sentiment B A = \<lparr>polarity = 0, subjectivity = 0\<rparr>) \<and>
   (spacy B = None \<longrightarrow> extract_entities B A = Inr []) \<and>
   (textstat B = None \<longrightarrow> get_readability_scores B A = []) \<and>
   (textblob B = None \<and> spacy B = None \<and> textstat B = None \<and> content_text \<noteq> [] \<longrightarrow>
      (\<exists>r. analyze_content N B content_text = Inr (Some r) \<and>
           res_sentiment r = \<lparr>polarity = 0, subjectivity = 0\<rparr> \<and>
           res_entities r = [] \<and> res_readability r = [])) \<and>
   (\<forall>sp nlp. spacy B = Some sp \<and> load_model sp = Some nlp \<longrightarrow>
      extract_entities B A = Inr (foldl entities_append [] (nlp (atext A)))) \<and>
   (\<forall>sp nlp. spacy B = Some sp \<and> load_model sp = None \<and>
        load_model_after_download sp = Some nlp \<longrightarrow>
      extract_entities B A = Inr (foldl entities_append [] (nlp (atext A)))) \<and>
   (\<forall>sp. spacy B = Some sp \<and> load_model sp = None \<and> load_model_after_download sp = None \<longrightarrow>
      extract_entities B A = Inl OSError \<and>
      (content_text \<noteq> [] \<longrightarrow> analyze_content N B content_text = Inl OSError))"
proof -
  have a: "textblob B = None \<longrightarrow> get_sentiment B A = \<lparr>polarity = 0, subjectivity = 0\<rparr>"
    by (simp add: get_sentiment_def)
  have b: "spacy B = None \<longrightarrow> extract_entities B A = Inr []"
    by (simp add: extract_entities_def)
  have c: "textstat B = None \<longrightarrow> get_readability_scores B A = []"
    by (simp add: get_readability_scores_def)
  have d: "textblob B = None \<and> spacy B = None \<and> textstat B = None \<and> content_text \<noteq> [] \<longrightarrow>
      (\<exists>r. analyze_content N B content_text = Inr (Some r) \<and>
           res_sentiment r = \<lparr>polarity = 0, subjectivity = 0\<rparr> \<and>
           res_entities r = [] \<and> res_readability r = [])"
  proof (intro impI, elim conjE)
    assume h: "textblob B = None" "spacy B = None" "textstat B = None" "content_text \<noteq> []"
    obtain m where m:
      "average_sentence_length (get_sentences N (TextAnalyzer N content_text ''english'')) = Inr m"
      using average_sentence_length_returns by blast
    show "\<exists>r. analyze_content N B content_text = Inr (Some r) \<and>
           res_sentiment r = \<lparr>polarity = 0, subjectivity = 0\<rparr> \<and>
           res_entities r = [] \<and> res_readability r = []"
      using h m
      by (simp add: analyze_content_def Let_def extract_entities_def get_sentiment_def
            get_readability_scores_def)
  qed
  have e: "\<forall>sp nlp. spacy B = Some sp \<and> load_model sp = Some nlp \<longrightarrow>
      extract_entities B A = Inr (foldl entities_append [] (nlp (atext A)))"
    by (simp add: extract_entities_def)
  have f: "\<forall>sp nlp. spacy B = Some sp \<and> load_model sp = None \<and>
        load_model_after_download sp = Some nlp \<longrightarrow>
      extract_entities B A = Inr (foldl entities_append [] (nlp (atext A)))"
    by (simp add: extract_entities_def)
  have g: "\<forall>sp. spacy B = Some sp \<and> load_model sp = None \<and> load_model_after_download sp = None \<longrightarrow>
      extract_entities B A = Inl OSError \<and>
      (content_text \<noteq> [] \<longrightarrow> analyze_content N B content_text = Inl OSError)"
    by (simp add: extract_entities_def analyze_content_def Let_def)
  show ?thesis
    by (rule conjI [OF a conjI [OF b conjI [OF c conjI [OF d conjI [OF e conjI [OF f g]]]]]])
qed

theorem backends_unavailable_witness:
  "get_sentiment no_backends (TextAnalyzer simple_nltk ''good day'' ''english'') =
     \<lparr>polarity = 0, subjectivity = 0\<rparr> \<and>
   extract_entities no_backends (TextAnalyzer simple_nltk ''good day'' ''english'') = Inr [] \<and>
   get_readability_scores no_backends (TextAnalyzer simple_nltk ''good day'' ''english'') = [] \<and>
   (\<exists>r. analyze_content simple_nltk no_backends ''good day'' = Inr (Some r) \<and>
        res_sentiment r = \<lparr>polarity = 0, subjectivity = 0\<rparr> \<and>
        res_entities r = [] \<and> res_readability r = [])"
  using backends_unavailable
    [of no_backends "TextAnalyzer simple_nltk ''good day'' ''english''" "''good day''" simple_nltk]
  by (simp add: no_backends_def)

text \<open>
  With spaCy importable and its model missing for good, \<^verbatim>\<open>extract_entities\<close> does not
  return the empty dictionary and \<^verbatim>\<open>analyze_content\<close> does not return: both raise
  \<^verbatim>\<open>OSError\<close>.
\<close>

theorem missing_model_raises:
  "extract_entities no_model_backends (TextAnalyzer simple_nltk ''good day'' ''english'') =
     Inl OSError \<and>
   analyze_content simple_nltk no_model_backends ''good day'' = Inl OSError"
  by (simp add: extract_entities_def analyze_content_def no_model_backends_def Let_def)

section \<open>Properties of the parser\<close>


text \<open>
  C10, as the code has it. \<^verbatim>\<open>get_meta_description\<close> returns \<^verbatim>\<open>None\<close> exactly when the
  document is empty or has no \<^verbatim>\<open>meta\<close> element whose \<^verbatim>\<open>name\<close> is \<^verbatim>\<open>description\<close>. It looks
  at the first such element in document order only (the one \<^verbatim>\<open>find\<close> returns): when that
  element has no \<^verbatim>\<open>content\<close> attribute, the result is the empty string.
\<close>

theorem get_meta_description_content:
  "(soup p = None \<longrightarrow> get_meta_description p = Inr None) \<and>
   (\<forall>d. soup p = Some d \<longrightarrow>
      (find_all [''meta''] [(''name'', MStr ''description'')] d = [] \<longrightarrow>
         get_meta_description p = Inr None) \<and>
      (\<forall>m ms. find_all [''meta''] [(''name'', MStr ''description'')] d = m # ms \<longrightarrow>
         get_meta_description p \<noteq> Inr None \<and>
         (get_attr m ''content'' = None \<longrightarrow> get_meta_description p = Inr (Some []))))"
proof -
  have a: "soup p = None \<longrightarrow> get_meta_description p = Inr None"
    by (simp add: get_meta_description_def)
  have b: "find_all [''meta''] [(''name'', MStr ''description'')] d = [] \<longrightarrow>
         get_meta_description p = Inr None" if "soup p = Some d" for d
    using that by (simp add: get_meta_description_def find_tag_def)
  have c: "get_meta_description p \<noteq> Inr None \<and>
         (get_attr m ''content'' = None \<longrightarrow> get_meta_description p = Inr (Some []))"
    if "soup p = Some d" "find_all [''meta''] [(''name'', MStr ''description'')] d = m # ms"
    for d m ms
    using that
    by (simp add: get_meta_description_def find_tag_def strip_def
          split: option.splits attr_value.splits)
  from a b c show ?thesis by blast
qed

theorem get_meta_description_content_witness:
  "get_meta_description meta_only = Inr (Some [])"
proof -
  have s: "soup meta_only = Some (Tag ''[document]'' []
      [Tag ''html'' [] [Tag ''head'' [] [Tag ''meta'' [(''name'', Str ''description'')] []]]])"
    by (simp add: meta_only_def)
  have f: "find_all [''meta''] [(''name'', MStr ''description'')] (Tag ''[document]'' []
      [Tag ''html'' [] [Tag ''head'' [] [Tag ''meta'' [(''name'', Str ''description'')] []]]])
      = [Tag ''meta'' [(''name'', Str ''description'')] []]"
    by (simp add: find_all_def tag_matches_def get_attr_def)
  have g: "get_attr (Tag ''meta'' [(''name'', Str ''description'')] []) ''content'' = None"
    by (simp add: get_attr_def)
  from get_meta_description_content [of meta_only] s f g show ?thesis by blast
qed

text \<open>
  A \<^verbatim>\<open>meta\<close> description without \<^verbatim>\<open>content\<close> that is not the first one does not make the
  result empty: here the document holds one, and the result is the content of the first.
\<close>

theorem second_meta_ignored:
  "find_all [''meta''] [(''name'', MStr ''description'')] two_metas_doc =
     [meta_with_content, meta_without_content] \<and>
   get_attr meta_without_content ''content'' = None \<and>
   get_meta_description two_metas = Inr (Some ''x'')"
  by code_simp

text \<open>
  \<^verbatim>\<open>get_author\<close> never returns \<^verbatim>\<open>None\<close> for a document that was parsed: when none of
  the first three patterns finds an element, the fourth call of \<^verbatim>\<open>find\<close> raises
  \<^verbatim>\<open>TypeError\<close>.
\<close>

lemma get_author_not_None: "soup p = Some d \<Longrightarrow> get_author p \<noteq> Inr None"
  by (simp add: get_author_def author_patterns_def find_kw_def split: option.splits)

text \<open>
  C2. On the document \<^verbatim>\<open><body><p>Hello</p></body>\<close>, which has no author and no date
  marker, \<^verbatim>\<open>get_publish_date\<close> returns \<^verbatim>\<open>None\<close> and \<^verbatim>\<open>get_author\<close> raises
  \<^verbatim>\<open>TypeError\<close>.
\<close>

theorem get_author_body_only:
  "get_author body_only = Inl TypeError \<and> get_publish_date body_only = None"
  by code_simp




section \<open>Properties of get_clean_text\<close>

lemma map_filter_append: "List.map_filter f (xs @ ys) = List.map_filter f xs @ List.map_filter f ys"
  by (simp add: List.map_filter_def)

lemma map_filter_concat: "List.map_filter f (concat xss) = concat (map (List.map_filter f) xss)"
  by (induction xss) (simp_all add: map_filter_append List.map_filter_simps)

lemma strs_Tag: "strs (Tag n a cs) = concat (map strs cs)"
  by (simp add: strs_def [abs_def] List.map_filter_simps map_filter_concat comp_def)

lemma located_anc: "(a, s) \<in> set (located_strings anc c) \<Longrightarrow> set anc \<subseteq> set a"
proof (induction c arbitrary: anc)
  case (Tag n ats cs)
  from Tag.prems obtain c where c: "c \<in> set cs" "(a, s) \<in> set (located_strings (n # anc) c)" by auto
  from Tag.IH [OF c] show ?case by simp
qed simp_all

lemma vis_removed: "removed c \<Longrightarrow> vis anc c = []"
proof (cases c)
  case (Tag n ats cs)
  assume "removed c"
  with Tag have n: "n \<in> set removed_tags" by (simp add: removed_def)
  have "\<not> (set a \<inter> set removed_tags = {})" if "(a, s) \<in> set (located_strings anc c)" for a s
  proof -
    from that Tag obtain c' where "c' \<in> set cs" "(a, s) \<in> set (located_strings (n # anc) c')" by auto
    from located_anc [OF this(2)] have "n \<in> set a" by simp
    with n show ?thesis by blast
  qed
  then have "filter (\<lambda>(a, s). set a \<inter> set removed_tags = {}) (located_strings anc c) = []"
    by (auto simp: filter_empty_conv)
  then show ?thesis by (simp add: vis_def)
qed (simp_all add: removed_def)

lemma vis_Tag: "vis anc (Tag n a cs) = concat (map (vis (n # anc)) cs)"
  by (simp add: vis_def [abs_def] filter_concat map_concat comp_def)

lemma concat_map_filter_keep:
  "(\<And>x. x \<in> set xs \<Longrightarrow> keep x \<Longrightarrow> f x = g x) \<Longrightarrow> (\<And>x. x \<in> set xs \<Longrightarrow> \<not> keep x \<Longrightarrow> g x = []) \<Longrightarrow>
   concat (map f (filter keep xs)) = concat (map g xs)"
  by (induction xs) simp_all

lemma strs_decompose:
  "set anc \<inter> set removed_tags = {} \<Longrightarrow> \<not> removed c \<Longrightarrow>
   strs (decompose_all removed_tags c) = vis anc c"
proof (induction c arbitrary: anc)
  case (Tag n ats cs)
  from Tag.prems(2) have n: "n \<notin> set removed_tags" by (simp add: removed_def)
  with Tag.prems(1) have anc': "set (n # anc) \<inter> set removed_tags = {}" by simp
  have "strs (decompose_all removed_tags (Tag n ats cs)) =
      concat (map (\<lambda>c. strs (decompose_all removed_tags c)) (filter (\<lambda>c. \<not> removed c) cs))"
    by (simp add: strs_Tag comp_def removed_def [abs_def])
  also have "\<dots> = concat (map (vis (n # anc)) cs)"
    by (rule concat_map_filter_keep) (simp_all add: Tag.IH [OF _ anc'] vis_removed)
  finally show ?case by (simp add: vis_Tag)
next
  case (NavigableString s)
  then show ?case by (simp add: strs_def vis_def List.map_filter_simps)
next
  case (Comment s)
  then show ?case by (simp add: strs_def vis_def List.map_filter_simps)
qed

lemma all_strings_decompose:
  "List.map_filter nav_string (descendants (decompose_all removed_tags (Tag n a cs))) = outside_strings cs"
proof -
  have "List.map_filter nav_string (descendants (decompose_all removed_tags (Tag n a cs))) =
      concat (map (\<lambda>c. strs (decompose_all removed_tags c)) (filter (\<lambda>c. \<not> removed c) cs))"
    by (simp add: map_filter_concat comp_def removed_def [abs_def] strs_def [abs_def])
  also have "\<dots> = concat (map (vis []) cs)"
    by (rule concat_map_filter_keep) (simp_all add: strs_decompose vis_removed)
  also have "\<dots> = outside_strings cs"
    by (simp add: outside_strings_def vis_def [abs_def] filter_concat map_concat comp_def)
  finally show ?thesis .
qed

lemma strip_rstrip: "strip s = rstrip (dropWhile isspace s)"
  by (simp add: strip_def rstrip_def)

lemma isspace_space: "isspace (CHR '' '')"
  by (simp add: isspace_def)

lemma rstrip_append_nonempty: "rstrip ys \<noteq> [] \<Longrightarrow> rstrip (xs @ ys) = xs @ rstrip ys"
proof -
  assume "rstrip ys \<noteq> []"
  then have "dropWhile isspace (rev ys) \<noteq> []" by (simp add: rstrip_def)
  then obtain x where "x \<in> set (rev ys)" "\<not> isspace x"
    by (auto simp: dropWhile_eq_Nil_conv)
  then have "dropWhile isspace (rev ys @ rev xs) = dropWhile isspace (rev ys) @ rev xs"
    by (rule dropWhile_append1)
  then show ?thesis by (simp add: rstrip_def)
qed

lemma rstrip_append_ws: "\<forall>x\<in>set ys. isspace x \<Longrightarrow> rstrip (xs @ ys) = rstrip xs"
proof -
  assume "\<forall>x\<in>set ys. isspace x"
  then have "dropWhile isspace (rev ys @ rev xs) = dropWhile isspace (rev xs)"
    by (intro dropWhile_append2) simp
  then show ?thesis by (simp add: rstrip_def)
qed

lemma rstrip_last: "w \<noteq> [] \<Longrightarrow> \<not> isspace (last w) \<Longrightarrow> rstrip w = w"
proof -
  assume a: "w \<noteq> []" "\<not> isspace (last w)"
  then obtain x xs where r: "rev w = x # xs" by (cases "rev w") auto
  with a have "x = last w" by (metis last_rev list.sel(1) rev_rev_ident)
  with a(2) have "\<not> isspace x" by simp
  then have "dropWhile isspace (x # xs) = x # xs" by simp
  with r have "dropWhile isspace (rev w) = rev w" by simp
  then show ?thesis by (simp add: rstrip_def)
qed

lemma rstrip_Cons_nonspace: "\<not> isspace d \<Longrightarrow> rstrip (d # xs) \<noteq> []"
  by (auto simp: rstrip_def dropWhile_eq_Nil_conv)

lemma split_from_nonempty: "w \<noteq> [] \<Longrightarrow> split_from w s \<noteq> []"
  by (induction s arbitrary: w) simp_all

lemma split_from_lstrip: "split_from [] (dropWhile isspace s) = split_from [] s"
  by (induction s) simp_all

lemma join_Cons_nonempty: "ys \<noteq> [] \<Longrightarrow> join sep (x # ys) = x @ sep @ join sep ys"
  by (cases ys) simp_all

lemma rstrip_re_sub_ws:
  "w \<noteq> [] \<Longrightarrow> \<not> isspace (last w) \<Longrightarrow>
   rstrip (w @ re_sub_ws s) = join '' '' (split_from w s)"
proof (induction "length s" arbitrary: s w rule: less_induct)
  case less
  show ?case
  proof (cases s)
    case Nil
    with less.prems show ?thesis by (simp add: rstrip_last)
  next
    case (Cons c cs)
    show ?thesis
    proof (cases "isspace c")
      case False
      have "rstrip ((w @ [c]) @ re_sub_ws cs) = join '' '' (split_from (w @ [c]) cs)"
        by (rule less.hyps) (simp_all add: Cons False)
      with False Cons show ?thesis by simp
    next
      case True
      define t where "t = dropWhile isspace cs"
      have sub: "re_sub_ws s = CHR '' '' # re_sub_ws t"
        using True Cons by (simp add: t_def)
      have spl: "split_from w s = w # split_from [] t"
        using True Cons less.prems(1) by (simp add: t_def split_from_lstrip)
      show ?thesis
      proof (cases t)
        case Nil
        have "rstrip (w @ [CHR '' '']) = rstrip w"
          by (rule rstrip_append_ws) (simp add: isspace_space)
        with Nil sub spl less.prems show ?thesis by (simp add: rstrip_last)
      next
        case (Cons d ds)
        have d: "\<not> isspace d"
          using Cons hd_dropWhile [of isspace cs] by (simp add: t_def)
        have len: "length ds < length s"
        proof -
          have "length t \<le> length cs" unfolding t_def by (rule length_dropWhile_le)
          with Cons \<open>s = c # cs\<close> show ?thesis by simp
        qed
        have ih: "rstrip ([d] @ re_sub_ws ds) = join '' '' (split_from [d] ds)"
          using len by (rule less.hyps) (simp_all add: d)
        have ne: "rstrip (d # re_sub_ws ds) \<noteq> []"
          using d by (rule rstrip_Cons_nonspace)
        have "rstrip (w @ re_sub_ws s) = rstrip ((w @ [CHR '' '']) @ (d # re_sub_ws ds))"
          using sub Cons d by simp
        also have "\<dots> = (w @ [CHR '' '']) @ rstrip (d # re_sub_ws ds)"
          using ne by (rule rstrip_append_nonempty)
        also have "\<dots> = w @ '' '' @ join '' '' (split_from [d] ds)"
          using ih by simp
        also have "\<dots> = join '' '' (w # split_from [d] ds)"
          by (simp add: join_Cons_nonempty split_from_nonempty)
        also have "\<dots> = join '' '' (split_from w s)"
          using spl Cons d by simp
        finally show ?thesis .
      qed
    qed
  qed
qed

lemma re_sub_ws_lstrip: "dropWhile isspace (re_sub_ws s) = re_sub_ws (dropWhile isspace s)"
proof (cases s)
  case Nil
  then show ?thesis by simp
next
  case (Cons c cs)
  show ?thesis
  proof (cases "isspace c")
    case False
    with Cons show ?thesis by simp
  next
    case True
    define t where "t = dropWhile isspace cs"
    have "dropWhile isspace (re_sub_ws t) = re_sub_ws t"
    proof (cases t)
      case Nil
      then show ?thesis by simp
    next
      case (Cons d ds)
      then have "\<not> isspace d" using hd_dropWhile [of isspace cs] by (simp add: t_def)
      with Cons show ?thesis by simp
    qed
    with True Cons show ?thesis by (simp add: t_def isspace_space)
  qed
qed

lemma strip_re_sub_ws: "strip (re_sub_ws s) = join '' '' (py_split s)"
proof -
  define t where "t = dropWhile isspace s"
  have "strip (re_sub_ws s) = rstrip (re_sub_ws t)"
    by (simp add: strip_rstrip re_sub_ws_lstrip t_def)
  also have "\<dots> = join '' '' (split_from [] t)"
  proof (cases t)
    case Nil
    then show ?thesis by (simp add: rstrip_def)
  next
    case (Cons d ds)
    then have d: "\<not> isspace d" using hd_dropWhile [of isspace s] by (simp add: t_def)
    have "rstrip ([d] @ re_sub_ws ds) = join '' '' (split_from [d] ds)"
      by (rule rstrip_re_sub_ws) (simp_all add: d)
    with Cons d show ?thesis by simp
  qed
  also have "\<dots> = join '' '' (py_split s)"
    by (simp add: t_def split_from_lstrip py_split_def)
  finally show ?thesis .
qed

lemma adjacent_spaces_append:
  "\<forall>c\<in>set x. \<not> isspace c \<Longrightarrow> adjacent_spaces (x @ ys) = adjacent_spaces ys"
proof (induction x)
  case Nil
  then show ?case by simp
next
  case (Cons a x)
  then have a: "\<not> isspace a" and ih: "adjacent_spaces (x @ ys) = adjacent_spaces ys" by simp_all
  show ?case
  proof (cases "x @ ys")
    case Nil
    then show ?thesis by simp
  next
    case (Cons b r)
    then have "adjacent_spaces (a # x @ ys) = adjacent_spaces (x @ ys)" using a by simp
    with ih show ?thesis by simp
  qed
qed

lemma join_hd: "tokens_ok ts \<Longrightarrow> ts \<noteq> [] \<Longrightarrow> join sep ts \<noteq> [] \<and> hd (join sep ts) = hd (hd ts)"
  by (induction sep ts rule: join.induct) (simp_all add: tokens_ok_def)

lemma join_last:
  "tokens_ok ts \<Longrightarrow> ts \<noteq> [] \<Longrightarrow> last (join sep ts) = last (last ts)"
proof (induction sep ts rule: join.induct)
  case (3 sep x y ys)
  then have ok: "tokens_ok (y # ys)" by (simp add: tokens_ok_def)
  with join_hd [of "y # ys" sep] have "join sep (y # ys) \<noteq> []" by simp
  with 3 ok show ?case by simp
qed simp_all

lemma join_spaces: "tokens_ok ts \<Longrightarrow> c \<in> set (join '' '' ts) \<Longrightarrow> isspace c \<Longrightarrow> c = CHR '' ''"
proof (induction "'' ''" ts rule: join.induct)
  case (3 x y ys)
  then have ok: "tokens_ok (y # ys)" and x: "\<forall>c\<in>set x. \<not> isspace c" by (simp_all add: tokens_ok_def)
  from "3.prems"(2) have "c \<in> set x \<or> c = CHR '' '' \<or> c \<in> set (join '' '' (y # ys))" by auto
  with x "3.prems"(3) "3.hyps" [OF ok] show ?case by blast
qed (auto simp: tokens_ok_def)

lemma join_not_adjacent: "tokens_ok ts \<Longrightarrow> \<not> adjacent_spaces (join '' '' ts)"
proof (induction "'' ''" ts rule: join.induct)
  case 1
  then show ?case by simp
next
  case (2 x)
  then have "\<forall>c\<in>set x. \<not> isspace c" by (simp add: tokens_ok_def)
  from adjacent_spaces_append [OF this, of "[]"] show ?case by simp
next
  case (3 x y ys)
  then have ok: "tokens_ok (y # ys)" and x: "\<forall>c\<in>set x. \<not> isspace c" and y: "y \<noteq> []" "\<not> isspace (hd y)"
    by (simp_all add: tokens_ok_def)
  from join_hd [OF ok, of "'' ''"] obtain h r where j: "join '' '' (y # ys) = h # r" "h = hd y"
    by (cases "join '' '' (y # ys)") auto
  have "adjacent_spaces (join '' '' (x # y # ys)) = adjacent_spaces (CHR '' '' # join '' '' (y # ys))"
    using adjacent_spaces_append [OF x, of "CHR '' '' # join '' '' (y # ys)"] by simp
  also have "\<dots> = adjacent_spaces (join '' '' (y # ys))"
    using j y by simp
  finally show ?case using "3.hyps" [OF ok] by simp
qed

lemma py_split_ok: "tokens_ok (py_split s)"
  unfolding tokens_ok_def py_split_def using split_from_tokens [of "[]" _ s] by simp

lemma clean_shape:
  assumes "r = join '' '' (py_split s)"
  shows "(\<forall>c\<in>set r. isspace c \<longrightarrow> c = CHR '' '') \<and> \<not> adjacent_spaces r \<and>
         (r \<noteq> [] \<longrightarrow> \<not> isspace (hd r) \<and> \<not> isspace (last r))"
proof -
  note ok = py_split_ok [of s]
  have 1: "\<forall>c\<in>set r. isspace c \<longrightarrow> c = CHR '' ''"
    using join_spaces [OF ok] assms by blast
  have 2: "\<not> adjacent_spaces r"
    using join_not_adjacent [OF ok] assms by simp
  have 3: "\<not> isspace (hd r) \<and> \<not> isspace (last r)" if "r \<noteq> []"
  proof -
    from that assms have ne: "py_split s \<noteq> []" by auto
    then have h: "hd (py_split s) \<in> set (py_split s)" and l: "last (py_split s) \<in> set (py_split s)"
      by simp_all
    from ok h have "hd (py_split s) \<noteq> []" "\<forall>c\<in>set (hd (py_split s)). \<not> isspace c"
      by (simp_all add: tokens_ok_def)
    then have a: "\<not> isspace (hd (hd (py_split s)))" by simp
    from ok l have "last (py_split s) \<noteq> []" "\<forall>c\<in>set (last (py_split s)). \<not> isspace c"
      by (simp_all add: tokens_ok_def)
    then have b: "\<not> isspace (last (last (py_split s)))" by simp
    from a b join_hd [OF ok ne, of "'' ''"] join_last [OF ok ne, of "'' ''"] assms
    show ?thesis by simp
  qed
  from 1 2 3 show ?thesis by blast
qed

lemma get_clean_text_None: "soup p = None \<Longrightarrow> get_clean_text p = ([], p)"
  by (simp add: get_clean_text_def)

lemma get_clean_text_Some:
  "soup p = Some d \<Longrightarrow>
   get_clean_text p =
     (join '' '' (py_split (get_text '' '' True (decompose_all removed_tags d))),
      p\<lparr>soup := Some (decompose_all removed_tags d)\<rparr>)"
  by (simp add: get_clean_text_def Let_def strip_re_sub_ws)

text \<open>
  C5. The text that \<^verbatim>\<open>get_clean_text\<close> returns is built from the strings of the document
  that lie in no \<^verbatim>\<open>script\<close>, \<^verbatim>\<open>style\<close>, \<^verbatim>\<open>head\<close>, \<^verbatim>\<open>header\<close>, \<^verbatim>\<open>footer\<close> or \<^verbatim>\<open>nav\<close>
  element, and from nothing else: it is the whitespace tokens of those strings, joined by
  single spaces. So every whitespace character of the result is a space, no two of them
  are adjacent, and the result neither starts nor ends with whitespace. For an empty
  document the result is the empty string.
\<close>

theorem get_clean_text_outside:
  "(soup p = None \<longrightarrow> fst (get_clean_text p) = []) \<and>
   (\<forall>n a cs. soup p = Some (Tag n a cs) \<longrightarrow>
      fst (get_clean_text p) =
        join '' '' (py_split (join '' '' (filter (\<lambda>s. s \<noteq> []) (map strip (outside_strings cs)))))) \<and>
   (\<forall>c\<in>set (fst (get_clean_text p)). isspace c \<longrightarrow> c = CHR '' '') \<and>
   \<not> adjacent_spaces (fst (get_clean_text p)) \<and>
   (fst (get_clean_text p) \<noteq> [] \<longrightarrow>
      \<not> isspace (hd (fst (get_clean_text p))) \<and> \<not> isspace (last (fst (get_clean_text p))))"
proof -
  have a: "soup p = None \<longrightarrow> fst (get_clean_text p) = []"
    by (simp add: get_clean_text_None)
  have b: "fst (get_clean_text p) =
        join '' '' (py_split (join '' '' (filter (\<lambda>s. s \<noteq> []) (map strip (outside_strings cs)))))"
    if "soup p = Some (Tag n a cs)" for n a cs
    using that
    by (simp add: get_clean_text_Some get_text_def all_strings_def all_strings_decompose
          del: decompose_all.simps)
  obtain s where s: "fst (get_clean_text p) = join '' '' (py_split s)"
  proof (cases "soup p")
    case None
    have "py_split [] = []" by (simp add: py_split_def)
    with None have "fst (get_clean_text p) = join '' '' (py_split [])"
      by (simp add: get_clean_text_None)
    then show ?thesis by (rule that)
  next
    case (Some d)
    then show ?thesis by (intro that) (simp add: get_clean_text_Some)
  qed
  from clean_shape [OF s] a b show ?thesis by blast
qed

theorem get_clean_text_outside_witness:
  "soup script_page = Some (Tag ''[document]'' [] script_page_children) \<and>
   outside_strings script_page_children =
     [[CHR '' '', CHR ''H'', CHR ''i'', CHR 0x0A, CHR '' '', CHR ''y'', CHR ''o'', CHR ''u'', CHR '' ''],
      ''bye''] \<and>
   fst (get_clean_text script_page) = ''Hi you bye''"
proof -
  have s: "soup script_page = Some (Tag ''[document]'' [] script_page_children)"
    by (simp add: script_page_def)
  have o: "outside_strings script_page_children =
     [[CHR '' '', CHR ''H'', CHR ''i'', CHR 0x0A, CHR '' '', CHR ''y'', CHR ''o'', CHR ''u'', CHR '' ''],
      ''bye'']"
    by code_simp
  have j: "join '' '' (py_split (join '' '' (filter (\<lambda>s. s \<noteq> []) (map strip
      [[CHR '' '', CHR ''H'', CHR ''i'', CHR 0x0A, CHR '' '', CHR ''y'', CHR ''o'', CHR ''u'', CHR '' ''],
       ''bye''])))) = ''Hi you bye''"
    by code_simp
  from get_clean_text_outside [of script_page] s
  have "fst (get_clean_text script_page) =
      join '' '' (py_split (join '' '' (filter (\<lambda>s. s \<noteq> [])
        (map strip (outside_strings script_page_children)))))"
    by blast
  with s o j show ?thesis by simp
qed

section \<open>Properties of sequences of accessor calls\<close>

lemma decompose_all_is_tag [simp]: "is_tag (decompose_all names c) = is_tag c"
  by (cases c) simp_all

lemma decompose_all_tag_name [simp]: "tag_name (decompose_all names c) = tag_name c"
  by (cases c) simp_all

lemma decompose_all_idem:
  "decompose_all names (decompose_all names c) = decompose_all names c"
proof (induction c)
  case (Tag n ats cs)
  have "filter (\<lambda>c. \<not> (is_tag c \<and> tag_name c \<in> set names))
          (map (decompose_all names) (filter (\<lambda>c. \<not> (is_tag c \<and> tag_name c \<in> set names)) cs)) =
        map (decompose_all names) (filter (\<lambda>c. \<not> (is_tag c \<and> tag_name c \<in> set names)) cs)"
    by (simp add: filter_map comp_def)
  moreover have "map (decompose_all names)
          (map (decompose_all names) (filter (\<lambda>c. \<not> (is_tag c \<and> tag_name c \<in> set names)) cs)) =
        map (decompose_all names) (filter (\<lambda>c. \<not> (is_tag c \<and> tag_name c \<in> set names)) cs)"
    using Tag.IH by simp
  ultimately show ?case by simp
qed simp_all

lemma call_other: "a \<noteq> GetCleanText \<Longrightarrow> snd (call a p) = p"
  by (cases a) simp_all

lemma clean_state_idem:
  "snd (call GetCleanText (snd (call GetCleanText p))) = snd (call GetCleanText p)"
  by (cases "soup p") (simp_all add: get_clean_text_None get_clean_text_Some decompose_all_idem)

lemma clean_result_idem:
  "fst (call GetCleanText (snd (call GetCleanText p))) = fst (call GetCleanText p)"
  by (cases "soup p") (simp_all add: get_clean_text_None get_clean_text_Some decompose_all_idem)

lemma run_state:
  "snd (run cs p) = (if GetCleanText \<in> set cs then snd (call GetCleanText p) else p)"
proof (induction cs arbitrary: p)
  case Nil
  then show ?case by simp
next
  case (Cons a cs)
  have step: "snd (run (a # cs) p) = snd (run cs (snd (call a p)))"
    by (simp split: prod.splits del: call.simps)
  show ?case
  proof (cases "a = GetCleanText")
    case True
    with step Cons.IH [of "snd (call GetCleanText p)"] show ?thesis
      by (simp add: clean_state_idem del: call.simps)
  next
    case False
    with step Cons.IH [of p] call_other [OF False, of p] show ?thesis by (simp del: call.simps)
  qed
qed

lemma run_results:
  "i < length cs \<Longrightarrow>
   fst (run cs p) ! i =
     fst (call (cs ! i) (if GetCleanText \<in> set (take i cs) then snd (call GetCleanText p) else p))"
proof (induction cs arbitrary: p i)
  case Nil
  then show ?case by simp
next
  case (Cons a cs)
  have step: "fst (run (a # cs) p) = fst (call a p) # fst (run cs (snd (call a p)))"
    by (simp split: prod.splits del: call.simps)
  show ?case
  proof (cases i)
    case 0
    with step show ?thesis by simp
  next
    case (Suc j)
    with Cons.prems have j: "j < length cs" by simp
    note ih = Cons.IH [OF j, of "snd (call a p)"]
    show ?thesis
    proof (cases "a = GetCleanText")
      case True
      with step Suc ih show ?thesis by (simp add: clean_state_idem del: call.simps)
    next
      case False
      with step Suc ih call_other [OF False, of p] show ?thesis by (simp del: call.simps)
    qed
  qed
qed

lemma decompose_all_none_left:
  "t \<in> set (descendants (decompose_all names c)) \<Longrightarrow> \<not> (is_tag t \<and> tag_name t \<in> set names)"
proof (induction c arbitrary: t)
  case (Tag n ats cs)
  from Tag.prems obtain c where c: "c \<in> set cs" "\<not> (is_tag c \<and> tag_name c \<in> set names)"
    and t: "t = decompose_all names c \<or> t \<in> set (descendants (decompose_all names c))"
    by auto
  from t show ?case
  proof
    assume "t = decompose_all names c"
    with c(2) show ?thesis by simp
  next
    assume "t \<in> set (descendants (decompose_all names c))"
    with Tag.IH [OF c(1)] show ?thesis by blast
  qed
qed simp_all

lemma clean_state:
  "snd (call GetCleanText p) = p\<lparr>soup := map_option (decompose_all removed_tags) (soup p)\<rparr>"
  by (cases "soup p") (simp_all add: get_clean_text_None get_clean_text_Some)

lemma clean_state_pruned:
  "soup (snd (call GetCleanText p)) = Some d' \<Longrightarrow> t \<in> set (descendants d') \<Longrightarrow>
   \<not> (is_tag t \<and> tag_name t \<in> set removed_tags)"
proof -
  assume a: "soup (snd (call GetCleanText p)) = Some d'" and t: "t \<in> set (descendants d')"
  from a obtain d where "soup p = Some d" "d' = decompose_all removed_tags d"
    unfolding clean_state by (cases "soup p") auto
  with t show ?thesis using decompose_all_none_left by blast
qed

lemma clean_state_changes:
  "soup p = Some d \<Longrightarrow> t \<in> set (descendants d) \<Longrightarrow> is_tag t \<Longrightarrow>
   tag_name t \<in> set removed_tags \<Longrightarrow> snd (call GetCleanText p) \<noteq> p"
proof
  assume a: "soup p = Some d" "t \<in> set (descendants d)" "is_tag t" "tag_name t \<in> set removed_tags"
    and e: "snd (call GetCleanText p) = p"
  from e a(1) have "soup (snd (call GetCleanText p)) = Some d" by simp
  from clean_state_pruned [OF this a(2)] a(3,4) show False by blast
qed

text \<open>
  C3, as the code has it. \<^verbatim>\<open>get_clean_text\<close> removes the elements from the parser's own
  document, not from a copy: after the call the parser holds the pruned document, in
  which no \<^verbatim>\<open>script\<close>, \<^verbatim>\<open>style\<close>, \<^verbatim>\<open>head\<close>, \<^verbatim>\<open>header\<close>, \<^verbatim>\<open>footer\<close> or \<^verbatim>\<open>nav\<close> element is
  left, so the parser has changed whenever the document had such an element. Every
  other accessor leaves the parser as it is. \<^verbatim>\<open>get_clean_text\<close> is idempotent: a second
  call leaves the same document and returns the same text. In a sequence of calls on
  one parser, each call returns what the accessor returns on the original document when
  no \<^verbatim>\<open>get_clean_text\<close> came before it, and what it returns on the pruned document
  otherwise.
\<close>

theorem accessors_after_clean_text:
  "(a \<noteq> GetCleanText \<longrightarrow> snd (call a p) = p) \<and>
   snd (call GetCleanText p) =
     p\<lparr>soup := map_option (decompose_all removed_tags) (soup p)\<rparr> \<and>
   (\<forall>d'. soup (snd (call GetCleanText p)) = Some d' \<longrightarrow>
      (\<forall>t\<in>set (descendants d'). \<not> (is_tag t \<and> tag_name t \<in> set removed_tags))) \<and>
   (\<forall>d. soup p = Some d \<longrightarrow>
      (\<exists>t\<in>set (descendants d). is_tag t \<and> tag_name t \<in> set removed_tags) \<longrightarrow>
      snd (call GetCleanText p) \<noteq> p) \<and>
   snd (call GetCleanText (snd (call GetCleanText p))) = snd (call GetCleanText p) \<and>
   fst (call GetCleanText (snd (call GetCleanText p))) = fst (call GetCleanText p) \<and>
   snd (run cs p) = (if GetCleanText \<in> set cs then snd (call GetCleanText p) else p) \<and>
   (\<forall>i<length cs.
      fst (run cs p) ! i =
        fst (call (cs ! i)
               (if GetCleanText \<in> set (take i cs) then snd (call GetCleanText p) else p)))"
proof -
  have c1: "a \<noteq> GetCleanText \<longrightarrow> snd (call a p) = p"
    using call_other [of a p] by blast
  note c2 = clean_state [of p]
  have c3: "\<forall>d'. soup (snd (call GetCleanText p)) = Some d' \<longrightarrow>
      (\<forall>t\<in>set (descendants d'). \<not> (is_tag t \<and> tag_name t \<in> set removed_tags))"
    using clean_state_pruned [of p] by blast
  have c4: "\<forall>d. soup p = Some d \<longrightarrow>
      (\<exists>t\<in>set (descendants d). is_tag t \<and> tag_name t \<in> set removed_tags) \<longrightarrow>
      snd (call GetCleanText p) \<noteq> p"
    using clean_state_changes [of p] by blast
  note c5 = clean_state_idem [of p]
  note c6 = clean_result_idem [of p]
  note c7 = run_state [of cs p]
  have c8: "\<forall>i<length cs.
      fst (run cs p) ! i =
        fst (call (cs ! i)
               (if GetCleanText \<in> set (take i cs) then snd (call GetCleanText p) else p))"
    using run_results [of _ cs p] by blast
  show ?thesis
    by (rule conjI [OF c1 conjI [OF c2 conjI [OF c3 conjI [OF c4 conjI [OF c5 conjI [OF c6
          conjI [OF c7 c8]]]]]]])
qed

theorem accessors_after_clean_text_witness:
  "snd (call GetTitle titled) = titled \<and>
   soup (snd (call GetCleanText titled)) =
     Some (Tag ''[document]'' []
       [Tag ''html'' [] [Tag ''body'' [] [Tag ''p'' [] [NavigableString ''Hello'']]]]) \<and>
   snd (call GetCleanText titled) \<noteq> titled \<and>
   snd (run [GetTitle, GetCleanText, GetTitle, GetCleanText] titled) =
     snd (call GetCleanText titled) \<and>
   fst (run [GetTitle, GetCleanText, GetTitle, GetCleanText] titled) ! 2 =
     fst (call GetTitle (snd (call GetCleanText titled))) \<and>
   fst (run [GetTitle, GetCleanText, GetTitle, GetCleanText] titled) ! 3 =
     fst (call GetCleanText titled)"
proof -
  note t = accessors_after_clean_text
    [of GetTitle titled "[GetTitle, GetCleanText, GetTitle, GetCleanText]"]
  have a: "snd (call GetTitle titled) = titled"
    using t by blast
  from t have st: "snd (call GetCleanText titled) =
      titled\<lparr>soup := map_option (decompose_all removed_tags) (soup titled)\<rparr>"
    by blast
  have pr: "map_option (decompose_all removed_tags) (soup titled) =
      Some (Tag ''[document]'' []
        [Tag ''html'' [] [Tag ''body'' [] [Tag ''p'' [] [NavigableString ''Hello'']]]])"
    by code_simp
  have s: "soup (snd (call GetCleanText titled)) =
     Some (Tag ''[document]'' []
       [Tag ''html'' [] [Tag ''body'' [] [Tag ''p'' [] [NavigableString ''Hello'']]]])"
    unfolding st pr by simp
  have "soup titled \<noteq> Some (Tag ''[document]'' []
       [Tag ''html'' [] [Tag ''body'' [] [Tag ''p'' [] [NavigableString ''Hello'']]]])"
    by (simp add: titled_def)
  with s have n: "snd (call GetCleanText titled) \<noteq> titled" by auto
  have b: "snd (run [GetTitle, GetCleanText, GetTitle, GetCleanText] titled) =
     snd (call GetCleanText titled)"
    using t by (simp del: call.simps run.simps)
  have i2: "(2::nat) < length [GetTitle, GetCleanText, GetTitle, GetCleanText]"
    and i3: "(3::nat) < length [GetTitle, GetCleanText, GetTitle, GetCleanText]"
    by simp_all
  from t have r: "\<forall>i<length [GetTitle, GetCleanText, GetTitle, GetCleanText].
      fst (run [GetTitle, GetCleanText, GetTitle, GetCleanText] titled) ! i =
        fst (call ([GetTitle, GetCleanText, GetTitle, GetCleanText] ! i)
               (if GetCleanText \<in> set (take i [GetTitle, GetCleanText, GetTitle, GetCleanText])
                then snd (call GetCleanText titled) else titled))"
    by blast
  from t have idem: "fst (call GetCleanText (snd (call GetCleanText titled))) =
      fst (call GetCleanText titled)"
    by blast
  have c: "fst (run [GetTitle, GetCleanText, GetTitle, GetCleanText] titled) ! 2 =
     fst (call GetTitle (snd (call GetCleanText titled)))"
    using r [rule_format, OF i2] by (simp del: call.simps run.simps add: numeral_2_eq_2)
  have d: "fst (run [GetTitle, GetCleanText, GetTitle, GetCleanText] titled) ! 3 =
     fst (call GetCleanText titled)"
    using r [rule_format, OF i3] idem
    by (simp del: call.simps run.simps add: numeral_3_eq_3)
  from a s n b c d show ?thesis by blast
qed

text \<open>
  Accessors are not idempotent across a call of \<^verbatim>\<open>get_clean_text\<close>: on a page with a title in its \<^verbatim>\<open>head\<close>, \<^verbatim>\<open>get_title\<close>
  returns the title before \<^verbatim>\<open>get_clean_text\<close> is called and \<^verbatim>\<open>None\<close> after.
\<close>

theorem title_lost_after_clean_text:
  "fst (call GetTitle titled) = Inr (PStr ''News'') \<and>
   fst (call GetTitle (snd (call GetCleanText titled))) = Inr PNone"
  by code_simp

section \<open>Properties of fetch_url\<close>


lemma ulp_eq: "2 powi k \<le> x \<Longrightarrow> x < 2 powi (k + 1) \<Longrightarrow> ulp x = 2 powi (k - 52)"
proof -
  assume a: "2 powi k \<le> x" "x < 2 powi (k + 1)"
  have "(0::real) < 2 powi k" by simp
  with a have x: "0 < x" by linarith
  have p1: "(2::real) powr real_of_int k = 2 powi k"
    by (rule powr_real_of_int') simp_all
  have p2: "(2::real) powr real_of_int (k + 1) = 2 powi (k + 1)"
    by (rule powr_real_of_int') simp_all
  have "(2::real) powr real_of_int k \<le> x \<and> x < 2 powr real_of_int (k + 1)"
    using a unfolding p1 p2 by simp
  then have "\<lfloor>log 2 x\<rfloor> = k"
    using floor_log_eq_powr_iff [of x 2 k] x by (simp add: add.commute)
  then show ?thesis by (simp add: ulp_def)
qed

















lemma ulp_eight: "8 \<le> x \<Longrightarrow> x < 16 \<Longrightarrow> ulp x = 1 / 2 ^ 49"
  using ulp_eq [of 3 x] by (simp add: power_int_minus field_simps)












lemma after_attempt_fields [simp]:
  "draws (after_attempt d u w) = draws w + 1"
  "requests (after_attempt d u w) = requests w + 1"
  "events (after_attempt d u w) = events w @ [Sleep d, Get u]"
  by (simp_all add: after_attempt_def)


lemma get_session_draws [simp]:
  "draws (snd (get_session E w)) = draws w + 1"
  "requests (snd (get_session E w)) = requests w"
  "events (snd (get_session E w)) = events w"
  by (simp_all add: get_session_def get_random_user_agent_def split_def)












section \<open>Properties of get_word_frequency\<close>

lemma set_first_occurrences [simp]: "set (first_occurrences xs) = set xs"
  by (induction xs) auto

lemma distinct_first_occurrences [simp]: "distinct (first_occurrences xs)"
  by (induction xs) simp_all

lemma first_occurrences_snoc:
  "first_occurrences (xs @ [w]) =
     (if w \<in> set xs then first_occurrences xs else first_occurrences xs @ [w])"
  by (induction xs) auto

lemma counter_add_new:
  "w \<notin> set ks \<Longrightarrow> counter_add (map (\<lambda>k. (k, f k)) ks) w = map (\<lambda>k. (k, f k)) ks @ [(w, 1)]"
  by (induction ks) auto

lemma count_list_snoc:
  "count_list (ws @ [w]) k = (if k = w then count_list ws k + 1 else count_list ws k)"
  by (induction ws) auto

lemma counter_add_old:
  "w \<in> set ks \<Longrightarrow> distinct ks \<Longrightarrow>
   counter_add (map (\<lambda>k. (k, f k)) ks) w = map (\<lambda>k. (k, if k = w then f k + 1 else f k)) ks"
proof (induction ks)
  case Nil
  then show ?case by simp
next
  case (Cons k ks)
  show ?case
  proof (cases "k = w")
    case True
    with Cons.prems have "w \<notin> set ks" by simp
    then have "map (\<lambda>k. (k, if k = w then f k + 1 else f k)) ks = map (\<lambda>k. (k, f k)) ks"
      by (intro map_cong) auto
    with True show ?thesis by simp
  next
    case False
    with Cons show ?thesis by simp
  qed
qed

lemma Counter_snoc: "Counter (ws @ [w]) = counter_add (Counter ws) w"
  by (simp add: Counter_def)

lemma Counter_eq:
  "Counter ws = map (\<lambda>k. (k, count_list ws k)) (first_occurrences ws)"
proof (induction ws rule: rev_induct)
  case Nil
  then show ?case by (simp add: Counter_def)
next
  case (snoc w ws)
  have step: "Counter (ws @ [w]) =
      counter_add (map (\<lambda>k. (k, count_list ws k)) (first_occurrences ws)) w"
    by (simp only: Counter_snoc snoc.IH)
  show ?case
  proof (cases "w \<in> set ws")
    case True
    have "counter_add (map (\<lambda>k. (k, count_list ws k)) (first_occurrences ws)) w =
        map (\<lambda>k. (k, if k = w then count_list ws k + 1 else count_list ws k)) (first_occurrences ws)"
      by (rule counter_add_old) (simp_all add: True)
    also have "\<dots> = map (\<lambda>k. (k, count_list (ws @ [w]) k)) (first_occurrences ws)"
      by (simp only: count_list_snoc)
    also have "\<dots> = map (\<lambda>k. (k, count_list (ws @ [w]) k)) (first_occurrences (ws @ [w]))"
      by (simp only: first_occurrences_snoc True if_True)
    finally show ?thesis using step by (simp only:)
  next
    case False
    have z: "count_list ws w = 0" using False by simp
    have A: "counter_add (map (\<lambda>k. (k, count_list ws k)) (first_occurrences ws)) w =
        map (\<lambda>k. (k, count_list ws k)) (first_occurrences ws) @ [(w, 1)]"
      by (rule counter_add_new) (simp add: False)
    have B: "map (\<lambda>k. (k, count_list ws k)) (first_occurrences ws) =
        map (\<lambda>k. (k, count_list (ws @ [w]) k)) (first_occurrences ws)"
    proof (rule map_cong [OF refl])
      fix k assume "k \<in> set (first_occurrences ws)"
      with False have "k \<noteq> w" by auto
      then show "(k, count_list ws k) = (k, count_list (ws @ [w]) k)"
        by (simp only: count_list_snoc if_False)
    qed
    have "count_list (ws @ [w]) w = 1"
      by (simp only: count_list_snoc z if_True) simp
    then have C: "[(w, 1::nat)] = map (\<lambda>k. (k, count_list (ws @ [w]) k)) [w]"
      by (simp only: list.map)
    have "counter_add (map (\<lambda>k. (k, count_list ws k)) (first_occurrences ws)) w =
        map (\<lambda>k. (k, count_list (ws @ [w]) k)) (first_occurrences ws) @
        map (\<lambda>k. (k, count_list (ws @ [w]) k)) [w]"
      using A B C by metis
    also have "\<dots> = map (\<lambda>k. (k, count_list (ws @ [w]) k)) (first_occurrences ws @ [w])"
      by (simp only: map_append)
    also have "\<dots> = map (\<lambda>k. (k, count_list (ws @ [w]) k)) (first_occurrences (ws @ [w]))"
      by (simp only: first_occurrences_snoc False if_False)
    finally show ?thesis using step by (simp only:)
  qed
qed

lemma mc_sorted: "sorted_wrt (\<lambda>a b. snd b \<le> snd a) (most_common n freq)"
proof -
  have "sorted (map (\<lambda>(w, c). - int c) (sort_key (\<lambda>(w, c). - int c) freq))"
    by (rule sorted_sort_key)
  then have "sorted_wrt (\<lambda>a b. snd b \<le> snd a) (sort_key (\<lambda>(w, c). - int c) freq)"
    by (simp add: sorted_map split_def)
  then have "sorted_wrt (\<lambda>a b. snd b \<le> snd a)
      (take (nat n) (sort_key (\<lambda>(w, c). - int c) freq) @ drop (nat n) (sort_key (\<lambda>(w, c). - int c) freq))"
    by simp
  then show ?thesis unfolding most_common_def sorted_wrt_append by blast
qed

lemma mc_stable:
  "prefix (filter (\<lambda>e. snd e = c) (most_common n freq)) (filter (\<lambda>e. snd e = c) freq)"
proof -
  have eq: "(\<lambda>e::'a \<times> nat. snd e = c) = (\<lambda>e. (case e of (w, c) \<Rightarrow> - int c) = - int c)"
    by (auto simp: fun_eq_iff)
  have "prefix (filter (\<lambda>e. snd e = c) (most_common n freq))
      (filter (\<lambda>e. snd e = c) (sort_key (\<lambda>(w, c). - int c) freq))"
    unfolding most_common_def by (intro filter_mono_prefix take_is_prefix)
  also have "filter (\<lambda>e. snd e = c) (sort_key (\<lambda>(w, c). - int c) freq) = filter (\<lambda>e. snd e = c) freq"
    unfolding eq by (rule sort_key_stable)
  finally show ?thesis .
qed

lemma mc_subset: "set (most_common n freq) \<subseteq> set freq"
  unfolding most_common_def using set_take_subset [of "nat n" "sort_key (\<lambda>(w, c). - int c) freq"]
  by simp

lemma mc_length: "length (most_common n freq) = min (nat n) (length freq)"
  by (simp add: most_common_def min.commute)

lemma mc_top:
  assumes "e \<in> set (most_common n freq)" "e' \<in> set freq" "e' \<notin> set (most_common n freq)"
  shows "snd e' \<le> snd e"
proof -
  let ?S = "sort_key (\<lambda>(w, c). - int c) freq"
  have "sorted (map (\<lambda>(w, c). - int c) ?S)" by (rule sorted_sort_key)
  then have "sorted_wrt (\<lambda>a b. snd b \<le> snd a) (take (nat n) ?S @ drop (nat n) ?S)"
    by (simp add: sorted_map split_def)
  then have all: "\<forall>x\<in>set (take (nat n) ?S). \<forall>y\<in>set (drop (nat n) ?S). snd y \<le> snd x"
    unfolding sorted_wrt_append by blast
  have "set freq = set (take (nat n) ?S) \<union> set (drop (nat n) ?S)"
    using set_append [of "take (nat n) ?S" "drop (nat n) ?S"] by simp
  with assms(2,3) have "e' \<in> set (drop (nat n) ?S)"
    by (auto simp: most_common_def)
  with all assms(1) show ?thesis by (simp add: most_common_def)
qed

lemma mc_distinct: "distinct (map fst freq) \<Longrightarrow> distinct (map fst (most_common n freq))"
proof -
  assume d: "distinct (map fst freq)"
  then have "distinct freq" "inj_on fst (set freq)" by (simp_all add: distinct_map)
  then have "distinct (map fst (sort_key (\<lambda>(w, c). - int c) freq))"
    by (simp add: distinct_map)
  then show ?thesis
    unfolding most_common_def take_map [symmetric] by (rule distinct_take)
qed

lemma preprocess_default:
  "filter (\<lambda>token. min_word_length \<le> int (length token)) (preprocess N A True True True) =
   kept_tokens N A min_word_length"
  by (simp add: preprocess_def kept_tokens_def Let_def)

lemma get_word_frequency_eq:
  "get_word_frequency N A top_n min_word_length =
     (case top_n of
        Some n \<Rightarrow>
          if n \<noteq> 0 then MostCommon (most_common n (Counter (kept_tokens N A min_word_length)))
          else FreqDist (Counter (kept_tokens N A min_word_length))
      | None \<Rightarrow> FreqDist (Counter (kept_tokens N A min_word_length)))"
  by (cases top_n) (simp_all add: get_word_frequency_def Let_def preprocess_default)

lemma get_word_frequency_cat:
  assumes "atext A = cat_text" "word_tokenize N cat_text = py_split cat_text"
    "''the'' \<in> stop_words A" "''on'' \<in> stop_words A"
    "''cat'' \<notin> stop_words A" "''sat'' \<notin> stop_words A"
    "''mat'' \<notin> stop_words A" "''ran'' \<notin> stop_words A"
  shows "get_word_frequency N A (Some 3) 3 = MostCommon [(''cat'', 2), (''sat'', 1), (''mat'', 1)]"
proof -
  have l: "lower cat_text = cat_text" by code_simp
  have p: "filter (\<lambda>c. \<not> is_punctuation c) cat_text = cat_text" by code_simp
  have s: "py_split cat_text =
      [''the'', ''cat'', ''sat'', ''on'', ''the'', ''mat'', ''the'', ''cat'', ''ran'']"
    by code_simp
  have k: "kept_tokens N A 3 = [''cat'', ''sat'', ''mat'', ''cat'', ''ran'']"
    by (simp add: kept_tokens_def assms l p s)
  have c: "Counter [''cat'', ''sat'', ''mat'', ''cat'', ''ran''] =
      [(''cat'', 2), (''sat'', 1), (''mat'', 1), (''ran'', 1)]"
    by code_simp
  have m: "most_common 3 [(''cat'', 2), (''sat'', 1), (''mat'', 1), (''ran'', 1::nat)] =
      [(''cat'', 2), (''sat'', 1), (''mat'', 1)]"
    by code_simp
  have "get_word_frequency N A (Some 3) 3 =
      MostCommon (most_common 3 (Counter (kept_tokens N A 3)))"
    by (simp add: get_word_frequency_eq)
  also have "\<dots> =
      MostCommon (most_common 3 [(''cat'', 2), (''sat'', 1), (''mat'', 1), (''ran'', 1)])"
    by (simp only: k c)
  also have "\<dots> = MostCommon [(''cat'', 2), (''sat'', 1), (''mat'', 1)]"
    by (simp only: m)
  finally show ?thesis .
qed

lemma get_word_frequency_most_common:
  "n \<noteq> 0 \<Longrightarrow>
   (\<exists>l. get_word_frequency N A (Some n) m = MostCommon l \<and>
      (\<forall>(w, c)\<in>set l. w \<in> set (kept_tokens N A m) \<and> c = count_list (kept_tokens N A m) w) \<and>
      distinct (map fst l) \<and>
      length l = min (nat n) (length (first_occurrences (kept_tokens N A m))) \<and>
      sorted_wrt (\<lambda>a b. snd b \<le> snd a) l \<and>
      (\<forall>c. prefix (map fst (filter (\<lambda>e. snd e = c) l))
             (filter (\<lambda>w. count_list (kept_tokens N A m) w = c)
                (first_occurrences (kept_tokens N A m)))) \<and>
      (\<forall>w\<in>set (kept_tokens N A m). w \<notin> fst ` set l \<longrightarrow>
         (\<forall>e\<in>set l. count_list (kept_tokens N A m) w \<le> snd e)))"
proof -
  assume n: "n \<noteq> 0"
  define toks where "toks = kept_tokens N A m"
  define freq where "freq = Counter toks"
  define l where "l = most_common n freq"
  have freq: "freq = map (\<lambda>k. (k, count_list toks k)) (first_occurrences toks)"
    unfolding freq_def by (rule Counter_eq)
  have r: "get_word_frequency N A (Some n) m = MostCommon l"
    using n by (simp add: get_word_frequency_eq l_def freq_def toks_def)
  have sub: "set l \<subseteq> set freq" unfolding l_def by (rule mc_subset)
  have p1: "\<forall>(w, c)\<in>set l. w \<in> set toks \<and> c = count_list toks w"
    using sub freq by auto
  have p2: "distinct (map fst l)"
    unfolding l_def by (rule mc_distinct) (simp add: freq comp_def)
  have p3: "length l = min (nat n) (length (first_occurrences toks))"
    unfolding l_def by (simp add: mc_length freq)
  have p4: "sorted_wrt (\<lambda>a b. snd b \<le> snd a) l"
    unfolding l_def by (rule mc_sorted)
  have p5: "prefix (map fst (filter (\<lambda>e. snd e = c) l))
      (filter (\<lambda>w. count_list toks w = c) (first_occurrences toks))" for c
  proof -
    have "prefix (map fst (filter (\<lambda>e. snd e = c) l)) (map fst (filter (\<lambda>e. snd e = c) freq))"
      unfolding l_def by (intro map_mono_prefix mc_stable)
    also have "map fst (filter (\<lambda>e. snd e = c) freq) =
        filter (\<lambda>w. count_list toks w = c) (first_occurrences toks)"
      by (simp add: freq filter_map comp_def)
    finally show ?thesis .
  qed
  have p6: "\<forall>e\<in>set l. count_list toks w \<le> snd e" if w: "w \<in> set toks" "w \<notin> fst ` set l" for w
  proof
    fix e assume e: "e \<in> set l"
    have a: "(w, count_list toks w) \<in> set freq" using w(1) by (simp add: freq)
    have b: "(w, count_list toks w) \<notin> set l" using w(2) by force
    from mc_top [of e n freq "(w, count_list toks w)"] e a b
    show "count_list toks w \<le> snd e" by (simp add: l_def)
  qed
  from r p1 p2 p3 p4 p5 p6 show ?thesis unfolding toks_def by blast
qed

text \<open>
  C6, as the code has it. The words that \<^verbatim>\<open>get_word_frequency\<close> counts are tokens of
  the text in lower case without punctuation, are no stopwords and have at least
  \<open>min_word_length\<close> characters. \<^verbatim>\<open>if top_n:\<close> takes \<^verbatim>\<open>top_n = 0\<close> like a \<^verbatim>\<open>top_n\<close> that
  is left out: the result is then the whole counter. With any other \<^verbatim>\<open>top_n\<close> it is a list
  of at most \<open>top_n\<close> distinct words, each with the number of its occurrences among the
  kept tokens, in falling order of count; the words of equal count stand in the order of
  their first occurrence; and no word that is left out occurs more often than a listed
  one. On the text \<^verbatim>\<open>the cat sat on the mat the cat ran\<close>, split at whitespace, with the
  stopwords \<^verbatim>\<open>the\<close> and \<^verbatim>\<open>on\<close>, \<^verbatim>\<open>top_n = 3\<close> and \<^verbatim>\<open>min_word_length = 3\<close>, the result
  is \<^verbatim>\<open>cat\<close> with count 2, then \<^verbatim>\<open>sat\<close> and \<^verbatim>\<open>mat\<close> with count 1.
\<close>

theorem get_word_frequency_top_n:
  "(\<forall>t\<in>set (kept_tokens N A m).
      t \<in> set (word_tokenize N (filter (\<lambda>c. \<not> is_punctuation c) (lower (atext A)))) \<and>
      t \<notin> stop_words A \<and> m \<le> int (length t)) \<and>
   get_word_frequency N A None m = FreqDist (Counter (kept_tokens N A m)) \<and>
   get_word_frequency N A (Some 0) m = FreqDist (Counter (kept_tokens N A m)) \<and>
   (n \<noteq> 0 \<longrightarrow>
     (\<exists>l. get_word_frequency N A (Some n) m = MostCommon l \<and>
        (\<forall>(w, c)\<in>set l. w \<in> set (kept_tokens N A m) \<and> c = count_list (kept_tokens N A m) w) \<and>
        distinct (map fst l) \<and>
        length l = min (nat n) (length (first_occurrences (kept_tokens N A m))) \<and>
        sorted_wrt (\<lambda>a b. snd b \<le> snd a) l \<and>
        (\<forall>c. prefix (map fst (filter (\<lambda>e. snd e = c) l))
               (filter (\<lambda>w. count_list (kept_tokens N A m) w = c)
                  (first_occurrences (kept_tokens N A m)))) \<and>
        (\<forall>w\<in>set (kept_tokens N A m). w \<notin> fst ` set l \<longrightarrow>
           (\<forall>e\<in>set l. count_list (kept_tokens N A m) w \<le> snd e)))) \<and>
   (atext A = cat_text \<and> word_tokenize N cat_text = py_split cat_text \<and>
    ''the'' \<in> stop_words A \<and> ''on'' \<in> stop_words A \<and>
    ''cat'' \<notin> stop_words A \<and> ''sat'' \<notin> stop_words A \<and>
    ''mat'' \<notin> stop_words A \<and> ''ran'' \<notin> stop_words A \<longrightarrow>
    get_word_frequency N A (Some 3) 3 =
      MostCommon [(''cat'', 2), (''sat'', 1), (''mat'', 1)])"
proof -
  have k: "\<forall>t\<in>set (kept_tokens N A m).
      t \<in> set (word_tokenize N (filter (\<lambda>c. \<not> is_punctuation c) (lower (atext A)))) \<and>
      t \<notin> stop_words A \<and> m \<le> int (length t)"
    by (simp add: kept_tokens_def)
  have a1: "get_word_frequency N A None m = FreqDist (Counter (kept_tokens N A m))"
    and a2: "get_word_frequency N A (Some 0) m = FreqDist (Counter (kept_tokens N A m))"
    by (simp_all add: get_word_frequency_eq)
  have b: "n \<noteq> 0 \<longrightarrow>
     (\<exists>l. get_word_frequency N A (Some n) m = MostCommon l \<and>
        (\<forall>(w, c)\<in>set l. w \<in> set (kept_tokens N A m) \<and> c = count_list (kept_tokens N A m) w) \<and>
        distinct (map fst l) \<and>
        length l = min (nat n) (length (first_occurrences (kept_tokens N A m))) \<and>
        sorted_wrt (\<lambda>a b. snd b \<le> snd a) l \<and>
        (\<forall>c. prefix (map fst (filter (\<lambda>e. snd e = c) l))
               (filter (\<lambda>w. count_list (kept_tokens N A m) w = c)
                  (first_occurrences (kept_tokens N A m)))) \<and>
        (\<forall>w\<in>set (kept_tokens N A m). w \<notin> fst ` set l \<longrightarrow>
           (\<forall>e\<in>set l. count_list (kept_tokens N A m) w \<le> snd e)))"
    by (rule impI) (rule get_word_frequency_most_common)
  have c: "atext A = cat_text \<and> word_tokenize N cat_text = py_split cat_text \<and>
    ''the'' \<in> stop_words A \<and> ''on'' \<in> stop_words A \<and>
    ''cat'' \<notin> stop_words A \<and> ''sat'' \<notin> stop_words A \<and>
    ''mat'' \<notin> stop_words A \<and> ''ran'' \<notin> stop_words A \<longrightarrow>
    get_word_frequency N A (Some 3) 3 =
      MostCommon [(''cat'', 2), (''sat'', 1), (''mat'', 1)]"
    by (intro impI, elim conjE, rule get_word_frequency_cat)
  show ?thesis
    by (rule conjI [OF k conjI [OF a1 conjI [OF a2 conjI [OF b c]]]])
qed

theorem get_word_frequency_top_n_witness:
  "get_word_frequency simple_nltk (TextAnalyzer simple_nltk cat_text ''english'') (Some 3) 3 =
     MostCommon [(''cat'', 2), (''sat'', 1), (''mat'', 1)]"
proof -
  have h: "atext (TextAnalyzer simple_nltk cat_text ''english'') = cat_text"
    "word_tokenize simple_nltk cat_text = py_split cat_text"
    "''the'' \<in> stop_words (TextAnalyzer simple_nltk cat_text ''english'')"
    "''on'' \<in> stop_words (TextAnalyzer simple_nltk cat_text ''english'')"
    "''cat'' \<notin> stop_words (TextAnalyzer simple_nltk cat_text ''english'')"
    "''sat'' \<notin> stop_words (TextAnalyzer simple_nltk cat_text ''english'')"
    "''mat'' \<notin> stop_words (TextAnalyzer simple_nltk cat_text ''english'')"
    "''ran'' \<notin> stop_words (TextAnalyzer simple_nltk cat_text ''english'')"
    by (simp_all add: TextAnalyzer_def simple_nltk_def)
  note t = get_word_frequency_top_n
    [where N = simple_nltk and A = "TextAnalyzer simple_nltk cat_text ''english''"
       and m = 3 and n = 3]
  note c = t [THEN conjunct2, THEN conjunct2, THEN conjunct2, THEN conjunct2]
  show ?thesis
    by (rule c [rule_format]) (intro conjI h)
qed

text \<open>
  With \<^verbatim>\<open>top_n = 0\<close> given, the result on that text is not the empty list of the top 0
  entries but the counter with all four words.
\<close>

theorem top_n_zero_returns_counter:
  "get_word_frequency simple_nltk (TextAnalyzer simple_nltk cat_text ''english'') (Some 0) 3 =
     FreqDist [(''cat'', 2), (''sat'', 1), (''mat'', 1), (''ran'', 1)] \<and>
   get_word_frequency simple_nltk (TextAnalyzer simple_nltk cat_text ''english'') (Some 0) 3 \<noteq>
     MostCommon []"
  by code_simp

end
